theory Spec2Isabelle
  imports Main "HOL-Library.Char_ord" "HOL-Library.List_Lexorder"
begin

section \<open>Exceptions and their HTTP status\<close>

text \<open>
  The Python exceptions that the recipe and user code can raise, either itself
  (\<open>int(...)\<close> in \<open>views.py\<close>) or through the ORM and REST framework calls it makes.
\<close>

datatype error =
    ValueError
  | DoesNotExist
  | MultipleObjectsReturned
  | Http404
  | NotAuthenticated
  | PermissionDenied
  | MethodNotAllowed
  | ValidationError



section \<open>Python string primitives used by the views\<close>

text \<open>\<open>str.split(',')\<close>: the empty string gives one empty token.\<close>

fun py_split :: "char \<Rightarrow> string \<Rightarrow> string list" where
  "py_split sep [] = [[]]"
| "py_split sep (c # cs) =
     (if c = sep then [] # py_split sep cs
      else (case py_split sep cs of
              [] \<Rightarrow> [[c]]
            | t # ts \<Rightarrow> (c # t) # ts))"

text \<open>
  \<open>int(s)\<close> on a string (ASCII part, the interpreter's limit on the number of digits
  aside): surrounding whitespace is dropped, one sign is allowed, then decimal digits,
  with single underscores allowed between digits. Anything else raises \<open>ValueError\<close>.
  \<open>strip\<close> is \<open>str.strip()\<close>.
\<close>

definition is_space :: "char \<Rightarrow> bool" where
  "is_space c = (c \<in> set [CHR '' '', CHR 0x09, CHR 0x0A, CHR 0x0B, CHR 0x0C, CHR 0x0D,
                           CHR 0x1C, CHR 0x1D, CHR 0x1E, CHR 0x1F])"

definition is_digit :: "char \<Rightarrow> bool" where
  "is_digit c = (c \<in> set ''0123456789'')"

definition digit_val :: "char \<Rightarrow> int" where
  "digit_val c = int (of_char c) - 48"

definition strip :: "string \<Rightarrow> string" where
  "strip s = rev (dropWhile is_space (rev (dropWhile is_space s)))"

fun parse_digits :: "string \<Rightarrow> int \<Rightarrow> int option" where
  "parse_digits [] acc = Some acc"
| "parse_digits (c # cs) acc =
     (if is_digit c then parse_digits cs (10 * acc + digit_val c)
      else if c = CHR ''_'' then
        (case cs of
           [] \<Rightarrow> None
         | d # ds \<Rightarrow> if is_digit d then parse_digits cs acc else None)
      else None)"

definition parse_unsigned :: "string \<Rightarrow> error + int" where
  "parse_unsigned s =
     (case s of
        [] \<Rightarrow> Inl ValueError
      | c # cs \<Rightarrow>
          if is_digit c then
            (case parse_digits s 0 of None \<Rightarrow> Inl ValueError | Some v \<Rightarrow> Inr v)
          else Inl ValueError)"

definition py_int :: "string \<Rightarrow> error + int" where
  "py_int s =
     (case strip s of
        [] \<Rightarrow> Inl ValueError
      | c # cs \<Rightarrow>
          if c = CHR ''-'' then
            (case parse_unsigned cs of Inl e \<Rightarrow> Inl e | Inr v \<Rightarrow> Inr (- v))
          else if c = CHR ''+'' then parse_unsigned cs
          else parse_unsigned (c # cs))"

section \<open>Data model\<close>

text \<open>
  Modelled from the spec: \<open>core/models.py\<close> (the declarations of \<open>User\<close>, \<open>Recipe\<close>,
  \<open>Tag\<close> and \<open>Ingredient\<close>) is not among the sources. The spec gives a recipe an owner,
  title, description, time in minutes (non-negative), a fixed-point price, an optional
  link and an optional image reference, and gives tags and ingredients an owner and a
  name. Primary keys and user references are integers. The price is kept in hundredths.
  The two many-to-many relations are the through tables \<open>recipe_tags\<close> and
  \<open>recipe_ingredients\<close>, holding pairs (recipe id, attribute id).
\<close>

record attr =
  attr_id :: int
  attr_user :: int
  attr_name :: string

record recipe =
  recipe_id :: int
  recipe_user :: int
  title :: string
  description :: string
  time_minutes :: nat
  price :: int
  link :: string
  image :: "string option"

record user =
  user_id :: int
  email :: string
  name :: string
  password_hash :: string

record db =
  users :: "user list"
  recipes :: "recipe list"
  tags :: "attr list"
  ingredients :: "attr list"
  recipe_tags :: "(int \<times> int) list"
  recipe_ingredients :: "(int \<times> int) list"

section \<open>ORM primitives\<close>

text \<open>
  An auto-increment key: larger than every key in the table.
\<close>

definition next_id :: "int list \<Rightarrow> int" where
  "next_id ids = fold max ids 0 + 1"

text \<open>\<open>Manager.get(user=u, name=n)\<close> on a tag or ingredient table.\<close>

definition objects_get :: "attr list \<Rightarrow> int \<Rightarrow> string \<Rightarrow> error + attr" where
  "objects_get table u n =
     (case filter (\<lambda>a. attr_user a = u \<and> attr_name a = n) table of
        [] \<Rightarrow> Inl DoesNotExist
      | [a] \<Rightarrow> Inr a
      | _ \<Rightarrow> Inl MultipleObjectsReturned)"

text \<open>
  \<open>Manager.get_or_create(user=u, name=n)\<close>: the row found, or a new row appended to
  the table; \<open>MultipleObjectsReturned\<close> of the lookup is passed on. The result is the
  row, the \<open>created\<close> flag and the table afterwards.
\<close>

definition get_or_create :: "attr list \<Rightarrow> int \<Rightarrow> string \<Rightarrow> error + (attr \<times> bool \<times> attr list)" where
  "get_or_create table u n =
     (case objects_get table u n of
        Inr a \<Rightarrow> Inr (a, False, table)
      | Inl DoesNotExist \<Rightarrow>
          (let a = \<lparr>attr_id = next_id (map attr_id table), attr_user = u, attr_name = n\<rparr>
           in Inr (a, True, table @ [a]))
      | Inl e \<Rightarrow> Inl e)"

text \<open>
  The related manager of a many-to-many field: \<open>add\<close> inserts the pair unless it is
  there already, \<open>clear\<close> deletes every pair of the recipe.
\<close>

definition m2m_add :: "(int \<times> int) list \<Rightarrow> int \<Rightarrow> int \<Rightarrow> (int \<times> int) list" where
  "m2m_add through rid aid = (if (rid, aid) \<in> set through then through else through @ [(rid, aid)])"

definition m2m_clear :: "(int \<times> int) list \<Rightarrow> int \<Rightarrow> (int \<times> int) list" where
  "m2m_clear through rid = filter (\<lambda>p. fst p \<noteq> rid) through"

text \<open>
  \<open>queryset.filter(tags__id__in=ids)\<close> joins the through table: a recipe comes once
  for every matching pair.
\<close>

definition filter_related_id_in :: "(int \<times> int) list \<Rightarrow> int list \<Rightarrow> recipe list \<Rightarrow> recipe list" where
  "filter_related_id_in through ids qs =
     concat (map (\<lambda>r. map (\<lambda>p. r)
                        (filter (\<lambda>p. fst p = recipe_id r \<and> snd p \<in> set ids) through)) qs)"

text \<open>
  \<open>queryset.filter(recipe__isnull=False)\<close> on tags or ingredients: the same join from
  the other side, an attribute once for every recipe it is assigned to.
\<close>

definition filter_recipe_notnull :: "(int \<times> int) list \<Rightarrow> attr list \<Rightarrow> attr list" where
  "filter_recipe_notnull through qs =
     concat (map (\<lambda>a. map (\<lambda>p. a) (filter (\<lambda>p. snd p = attr_id a) through)) qs)"

section \<open>Requests\<close>

text \<open>
  A request after token authentication: the authenticated user, if any, and the
  query parameters.
\<close>

record request =
  req_user :: "int option"
  query_params :: "string \<Rightarrow> string option"

section \<open>recipe/views.py: RecipeViewSet\<close>

text \<open>
  \<open>[int(str_id) for str_id in params.split(',')]\<close>: the first token that
  \<open>int\<close> rejects raises.
\<close>

fun ints_of :: "string list \<Rightarrow> error + int list" where
  "ints_of [] = Inr []"
| "ints_of (str_id # rest) =
     (case py_int str_id of
        Inl e \<Rightarrow> Inl e
      | Inr i \<Rightarrow> (case ints_of rest of Inl e \<Rightarrow> Inl e | Inr is \<Rightarrow> Inr (i # is)))"

definition params_to_ints :: "string \<Rightarrow> error + int list" where
  "params_to_ints params = ints_of (py_split CHR '','' params)"

text \<open>
  \<open>if tags_param:\<close> holds for a parameter that is present and not the empty string.
  An exception of \<open>_params_to_ints\<close> leaves the method at once.
\<close>

definition get_queryset :: "request \<Rightarrow> int \<Rightarrow> db \<Rightarrow> error + recipe list" where
  "get_queryset req u d =
     (let tags_param = query_params req ''tags'';
          ingredients_param = query_params req ''ingredients'';
          queryset = Inr (recipes d);
          queryset =
            (case tags_param of
               None \<Rightarrow> queryset
             | Some s \<Rightarrow>
                 if s = [] then queryset
                 else (case params_to_ints s of
                         Inl e \<Rightarrow> Inl e
                       | Inr tag_ids \<Rightarrow>
                           Inr (filter_related_id_in (recipe_tags d) tag_ids (recipes d))));
          queryset =
            (case queryset of
               Inl e \<Rightarrow> Inl e
             | Inr qs \<Rightarrow>
                 (case ingredients_param of
                    None \<Rightarrow> Inr qs
                  | Some s \<Rightarrow>
                      if s = [] then Inr qs
                      else (case params_to_ints s of
                              Inl e \<Rightarrow> Inl e
                            | Inr ingredient_ids \<Rightarrow>
                                Inr (filter_related_id_in (recipe_ingredients d)
                                       ingredient_ids qs))))
      in case queryset of
           Inl e \<Rightarrow> Inl e
         | Inr qs \<Rightarrow>
             (let user_recipes = remdups (filter (\<lambda>r. recipe_user r = u) qs)
              in Inr (rev (sort_key recipe_id user_recipes))))"

section \<open>recipe/serializers.py: RecipeSerializer\<close>

text \<open>
  The nested tag and ingredient serializers have the fields \<open>id\<close> (read only) and
  \<open>name\<close>, so a validated item is its name. Validated data of a create has passed
  the required-field checks: the scalar columns are present, the two lists may be
  absent. \<open>serializer.save(user=...)\<close> of the view adds the owner. Validated data of
  an update may hold any subset of the fields.
\<close>

record validated_create =
  c_user :: int
  c_title :: string
  c_description :: string
  c_time_minutes :: nat
  c_price :: int
  c_link :: string
  c_image :: "string option"
  c_tags :: "string list option"
  c_ingredients :: "string list option"

record validated_update =
  u_title :: "string option"
  u_description :: "string option"
  u_time_minutes :: "nat option"
  u_price :: "int option"
  u_link :: "string option"
  u_image :: "string option option"
  u_tags :: "string list option"
  u_ingredients :: "string list option"

text \<open>
  The two loops. The serializer opens no transaction of its own, so a write is in
  the database when a later step raises: the result is the exception, if any, and the
  database as the loop left it.
\<close>

fun get_or_create_tags :: "int \<Rightarrow> string list \<Rightarrow> recipe \<Rightarrow> db \<Rightarrow> error option \<times> db" where
  "get_or_create_tags auth_user [] recipe d = (None, d)"
| "get_or_create_tags auth_user (item # items) recipe d =
     (case get_or_create (tags d) auth_user item of
        Inl e \<Rightarrow> (Some e, d)
      | Inr (tag, created, table) \<Rightarrow>
          get_or_create_tags auth_user items recipe
            (d\<lparr>tags := table,
               recipe_tags := m2m_add (recipe_tags d) (recipe_id recipe) (attr_id tag)\<rparr>))"

fun get_or_create_ingredients :: "int \<Rightarrow> string list \<Rightarrow> recipe \<Rightarrow> db \<Rightarrow> error option \<times> db" where
  "get_or_create_ingredients auth_user [] recipe d = (None, d)"
| "get_or_create_ingredients auth_user (item # items) recipe d =
     (case get_or_create (ingredients d) auth_user item of
        Inl e \<Rightarrow> (Some e, d)
      | Inr (ingredient, created, table) \<Rightarrow>
          get_or_create_ingredients auth_user items recipe
            (d\<lparr>ingredients := table,
               recipe_ingredients :=
                 m2m_add (recipe_ingredients d) (recipe_id recipe) (attr_id ingredient)\<rparr>))"

text \<open>\<open>validated_data.pop(key, [])\<close>: an absent list counts as the empty one.\<close>

definition pop_list :: "string list option \<Rightarrow> string list" where
  "pop_list given = (case given of None \<Rightarrow> [] | Some items \<Rightarrow> items)"

text \<open>\<open>Recipe.objects.create(**validated_data)\<close>: the new row, under a fresh key.\<close>

definition objects_create :: "validated_create \<Rightarrow> recipe list \<Rightarrow> recipe" where
  "objects_create validated_data table =
     \<lparr>recipe_id = next_id (map recipe_id table),
      recipe_user = c_user validated_data,
      title = c_title validated_data,
      description = c_description validated_data,
      time_minutes = c_time_minutes validated_data,
      price = c_price validated_data,
      link = c_link validated_data,
      image = c_image validated_data\<rparr>"

definition create :: "int \<Rightarrow> validated_create \<Rightarrow> db \<Rightarrow> (error + recipe) \<times> db" where
  "create auth_user validated_data d =
     (let tags = pop_list (c_tags validated_data);
          ingredients = pop_list (c_ingredients validated_data);
          recipe = objects_create validated_data (recipes d);
          d1 = d\<lparr>recipes := recipes d @ [recipe]\<rparr>
      in case get_or_create_tags auth_user tags recipe d1 of
           (Some e, d2) \<Rightarrow> (Inl e, d2)
         | (None, d2) \<Rightarrow>
             (case get_or_create_ingredients auth_user ingredients recipe d2 of
                (Some e, d3) \<Rightarrow> (Inl e, d3)
              | (None, d3) \<Rightarrow> (Inr recipe, d3)))"

text \<open>\<open>setattr\<close> for every remaining key of the validated data.\<close>

definition set_attrs :: "recipe \<Rightarrow> validated_update \<Rightarrow> recipe" where
  "set_attrs instance validated_data =
     instance\<lparr>title := (case u_title validated_data of None \<Rightarrow> title instance | Some v \<Rightarrow> v),
              description :=
                (case u_description validated_data of None \<Rightarrow> description instance | Some v \<Rightarrow> v),
              time_minutes :=
                (case u_time_minutes validated_data of None \<Rightarrow> time_minutes instance | Some v \<Rightarrow> v),
              price := (case u_price validated_data of None \<Rightarrow> price instance | Some v \<Rightarrow> v),
              link := (case u_link validated_data of None \<Rightarrow> link instance | Some v \<Rightarrow> v),
              image := (case u_image validated_data of None \<Rightarrow> image instance | Some v \<Rightarrow> v)\<rparr>"

text \<open>
  \<open>instance.save()\<close>: the row with the instance's primary key is overwritten; an
  instance whose key is not in the table is inserted.
\<close>

definition save :: "recipe \<Rightarrow> recipe list \<Rightarrow> recipe list" where
  "save instance table =
     (if recipe_id instance \<in> set (map recipe_id table)
      then map (\<lambda>r. if recipe_id r = recipe_id instance then instance else r) table
      else table @ [instance])"

text \<open>
  The two \<open>if ... is not None\<close> blocks of \<open>update\<close>: a list that is given, the empty one
  included, first clears the recipe's pairs and then runs the loop; an absent list
  does nothing.
\<close>

definition replace_tags :: "int \<Rightarrow> recipe \<Rightarrow> string list option \<Rightarrow> db \<Rightarrow> error option \<times> db" where
  "replace_tags auth_user instance given d =
     (case given of
        None \<Rightarrow> (None, d)
      | Some items \<Rightarrow>
          get_or_create_tags auth_user items instance
            (d\<lparr>recipe_tags := m2m_clear (recipe_tags d) (recipe_id instance)\<rparr>))"

definition replace_ingredients :: "int \<Rightarrow> recipe \<Rightarrow> string list option \<Rightarrow> db \<Rightarrow> error option \<times> db" where
  "replace_ingredients auth_user instance given d =
     (case given of
        None \<Rightarrow> (None, d)
      | Some items \<Rightarrow>
          get_or_create_ingredients auth_user items instance
            (d\<lparr>recipe_ingredients := m2m_clear (recipe_ingredients d) (recipe_id instance)\<rparr>))"

definition update :: "int \<Rightarrow> recipe \<Rightarrow> validated_update \<Rightarrow> db \<Rightarrow> (error + recipe) \<times> db" where
  "update auth_user instance validated_data d =
     (let tags = u_tags validated_data;
          ingredients = u_ingredients validated_data
      in case replace_tags auth_user instance tags d of
           (Some e, d1) \<Rightarrow> (Inl e, d1)
         | (None, d1) \<Rightarrow>
             (case replace_ingredients auth_user instance ingredients d1 of
                (Some e, d2) \<Rightarrow> (Inl e, d2)
              | (None, d2) \<Rightarrow>
                  (let instance' = set_attrs instance validated_data
                   in (Inr instance', d2\<lparr>recipes := save instance' (recipes d2)\<rparr>))))"

section \<open>recipe/views.py: the actions of RecipeViewSet\<close>

text \<open>
  What a response carries: the status code and the serializer's data. The nested
  \<open>tags\<close> and \<open>ingredients\<close> of a recipe are the rows its through-table pairs name.
\<close>

datatype body =
    NoContent
  | Errors
  | RecipeData recipe "attr list" "attr list"
  | ImageData int "string option"
  | AttrData attr

type_synonym response = "nat \<times> body"

definition related :: "attr list \<Rightarrow> (int \<times> int) list \<Rightarrow> int \<Rightarrow> attr list" where
  "related table through rid = filter (\<lambda>a. (rid, attr_id a) \<in> set through) table"

definition recipe_data :: "recipe \<Rightarrow> db \<Rightarrow> body" where
  "recipe_data r d =
     RecipeData r (related (tags d) (recipe_tags d) (recipe_id r))
                  (related (ingredients d) (recipe_ingredients d) (recipe_id r))"

text \<open>
  \<open>authentication_classes = [TokenAuthentication]\<close> with
  \<open>permission_classes = [IsAuthenticated]\<close>: a request without a valid token is
  answered 401 before any action runs.
\<close>

definition authenticate :: "request \<Rightarrow> error + int" where
  "authenticate req = (case req_user req of None \<Rightarrow> Inl NotAuthenticated | Some u \<Rightarrow> Inr u)"

text \<open>
  The framework's \<open>get_object\<close>: the row with the primary key of the URL is looked up
  in the result of \<open>get_queryset\<close>; a missing row is \<open>Http404\<close>.
\<close>

definition get_object :: "request \<Rightarrow> int \<Rightarrow> int \<Rightarrow> db \<Rightarrow> error + recipe" where
  "get_object req u pk d =
     (case get_queryset req u d of
        Inl e \<Rightarrow> Inl e
      | Inr qs \<Rightarrow>
          (case filter (\<lambda>r. recipe_id r = pk) qs of
             [] \<Rightarrow> Inl Http404
           | [r] \<Rightarrow> Inr r
           | _ \<Rightarrow> Inl MultipleObjectsReturned))"

definition recipe_list :: "request \<Rightarrow> db \<Rightarrow> error + recipe list" where
  "recipe_list req d =
     (case authenticate req of Inl e \<Rightarrow> Inl e | Inr u \<Rightarrow> get_queryset req u d)"

text \<open>
  \<open>perform_create\<close>: \<open>serializer.save(user=self.request.user)\<close> puts the requester into
  the validated data. The payload argument is what the serializer's field validation
  made of the request body, \<open>None\<close> when it rejected the body.
\<close>

definition perform_create :: "int \<Rightarrow> validated_create \<Rightarrow> db \<Rightarrow> (error + recipe) \<times> db" where
  "perform_create u validated_data d = create u (validated_data\<lparr>c_user := u\<rparr>) d"

definition recipe_create :: "request \<Rightarrow> validated_create option \<Rightarrow> db \<Rightarrow> (error + response) \<times> db" where
  "recipe_create req payload d =
     (case authenticate req of
        Inl e \<Rightarrow> (Inl e, d)
      | Inr u \<Rightarrow>
          (case payload of
             None \<Rightarrow> (Inl ValidationError, d)
           | Some validated_data \<Rightarrow>
               (case perform_create u validated_data d of
                  (Inl e, d') \<Rightarrow> (Inl e, d')
                | (Inr r, d') \<Rightarrow> (Inr (201, recipe_data r d'), d'))))"


text \<open>PUT and PATCH: the object is fetched before the payload is validated.\<close>

definition recipe_update :: "request \<Rightarrow> int \<Rightarrow> validated_update option \<Rightarrow> db \<Rightarrow> (error + response) \<times> db" where
  "recipe_update req pk payload d =
     (case authenticate req of
        Inl e \<Rightarrow> (Inl e, d)
      | Inr u \<Rightarrow>
          (case get_object req u pk d of
             Inl e \<Rightarrow> (Inl e, d)
           | Inr instance \<Rightarrow>
               (case payload of
                  None \<Rightarrow> (Inl ValidationError, d)
                | Some validated_data \<Rightarrow>
                    (case update u instance validated_data d of
                       (Inl e, d') \<Rightarrow> (Inl e, d')
                     | (Inr r, d') \<Rightarrow> (Inr (200, recipe_data r d'), d')))))"


text \<open>
  \<open>upload_image\<close> with \<open>RecipeImageSerializer\<close> (fields \<open>id\<close>, read only, and \<open>image\<close>,
  required). The payload is what validation made of the request: \<open>None\<close> when the
  field is missing or does not decode as an image, otherwise the validated value,
  which is the reference under which the storage keeps the uploaded file (or an
  explicit null, where the model lets the column be empty). A valid serializer is
  saved by the framework's default \<open>update\<close>: the validated field is set on the instance
  and the instance is saved.
\<close>

definition upload_image :: "request \<Rightarrow> int \<Rightarrow> string option option \<Rightarrow> db \<Rightarrow> (error + response) \<times> db" where
  "upload_image req pk payload d =
     (case authenticate req of
        Inl e \<Rightarrow> (Inl e, d)
      | Inr u \<Rightarrow>
          (case get_object req u pk d of
             Inl e \<Rightarrow> (Inl e, d)
           | Inr recipe \<Rightarrow>
               (case payload of
                  Some img \<Rightarrow>
                    (let recipe' = recipe\<lparr>image := img\<rparr>
                     in (Inr (200, ImageData (recipe_id recipe') (image recipe')),
                         d\<lparr>recipes := save recipe' (recipes d)\<rparr>))
                | None \<Rightarrow> (Inr (400, Errors), d))))"



section \<open>recipe/views.py: BaseRecipeAttributesViewSet\<close>

text \<open>
  The base view set works on \<open>self.queryset\<close>, the tag table or the ingredient table,
  and on the through table behind that model's reverse relation \<open>recipe\<close>.
  \<open>int(query_params.get('assigned_only', 0))\<close> is 0 for an absent parameter.
\<close>

definition attr_get_queryset :: "request \<Rightarrow> int \<Rightarrow> attr list \<Rightarrow> (int \<times> int) list \<Rightarrow> error + attr list" where
  "attr_get_queryset req u table through =
     (case (case query_params req ''assigned_only'' of None \<Rightarrow> Inr 0 | Some s \<Rightarrow> py_int s) of
        Inl e \<Rightarrow> Inl e
      | Inr i \<Rightarrow>
          (let assigned_only = (i \<noteq> 0);
               queryset = table;
               queryset = (if assigned_only then filter_recipe_notnull through queryset
                           else queryset);
               user_items = remdups (filter (\<lambda>a. attr_user a = u) queryset)
           in Inr (sort_key attr_name user_items)))"




definition attr_list :: "request \<Rightarrow> attr list \<Rightarrow> (int \<times> int) list \<Rightarrow> error + attr list" where
  "attr_list req table through =
     (case authenticate req of
        Inl e \<Rightarrow> Inl e
      | Inr u \<Rightarrow> attr_get_queryset req u table through)"

text \<open>\<open>TagViewSet\<close> and \<open>IngredientViewSet\<close> set \<open>queryset\<close>.\<close>

definition tag_list :: "request \<Rightarrow> db \<Rightarrow> error + attr list" where
  "tag_list req d = attr_list req (tags d) (recipe_tags d)"

definition ingredient_list :: "request \<Rightarrow> db \<Rightarrow> error + attr list" where
  "ingredient_list req d = attr_list req (ingredients d) (recipe_ingredients d)"



section \<open>user/serializers.py: UserSerializer\<close>











section \<open>Well-formed databases\<close>

text \<open>
  What the database itself enforces: primary keys are unique, and a through-table
  pair refers to an existing recipe and an existing tag or ingredient.
\<close>

definition pk_ok :: "db \<Rightarrow> bool" where
  "pk_ok d =
     (distinct (map recipe_id (recipes d)) \<and>
      distinct (map attr_id (tags d)) \<and>
      distinct (map attr_id (ingredients d)))"

definition fk_ok :: "db \<Rightarrow> bool" where
  "fk_ok d =
     (fst ` set (recipe_tags d) \<subseteq> recipe_id ` set (recipes d) \<and>
      snd ` set (recipe_tags d) \<subseteq> attr_id ` set (tags d) \<and>
      fst ` set (recipe_ingredients d) \<subseteq> recipe_id ` set (recipes d) \<and>
      snd ` set (recipe_ingredients d) \<subseteq> attr_id ` set (ingredients d))"

text \<open>
  The ownership invariant: a tag or ingredient associated with a recipe has the
  recipe's owner.
\<close>

definition same_owner :: "recipe list \<Rightarrow> attr list \<Rightarrow> (int \<times> int) list \<Rightarrow> bool" where
  "same_owner rs as through =
     (\<forall>r \<in> set rs. \<forall>a \<in> set as.
        (recipe_id r, attr_id a) \<in> set through \<longrightarrow> attr_user a = recipe_user r)"

definition owner_inv :: "db \<Rightarrow> bool" where
  "owner_inv d =
     (same_owner (recipes d) (tags d) (recipe_tags d) \<and>
      same_owner (recipes d) (ingredients d) (recipe_ingredients d))"

text \<open>A table holds at most one row for every (user, name).\<close>

definition names_unique :: "attr list \<Rightarrow> bool" where
  "names_unique table = distinct (map (\<lambda>a. (attr_user a, attr_name a)) table)"

text \<open>A list with every repeated element dropped after its first occurrence.\<close>

fun dedup :: "'a list \<Rightarrow> 'a list" where
  "dedup [] = []"
| "dedup (x # xs) = x # dedup (removeAll x xs)"

section \<open>Query parameters that do not parse\<close>


section \<open>Writing an id list\<close>

text \<open>
  Python's \<open>str\<close> of an integer, as a client uses it to write the \<open>tags\<close> and
  \<open>ingredients\<close> parameters (\<open>digit_char\<close> is only applied to numbers below 10).
\<close>

definition digit_char :: "nat \<Rightarrow> char" where
  "digit_char n = ''0123456789'' ! n"

fun digits_of :: "nat \<Rightarrow> string" where
  "digits_of n = (if n < 10 then [digit_char n] else digits_of (n div 10) @ [digit_char (n mod 10)])"

definition py_str :: "int \<Rightarrow> string" where
  "py_str i = (if i < 0 then CHR ''-'' # digits_of (nat (- i)) else digits_of (nat i))"


section \<open>The reconciliation loop on one table\<close>

text \<open>The rows of a user under a name.\<close>

definition rows_named :: "attr list \<Rightarrow> int \<Rightarrow> string \<Rightarrow> attr list" where
  "rows_named table u n = filter (\<lambda>a. attr_user a = u \<and> attr_name a = n) table"

text \<open>
  Both loops of the serializer do the same to their own table and through table.
  \<open>attach_all\<close> is that common loop on the two lists alone; it is proved below to be what
  \<open>get_or_create_tags\<close> and \<open>get_or_create_ingredients\<close> compute.
\<close>

fun attach_all ::
  "int \<Rightarrow> string list \<Rightarrow> int \<Rightarrow> attr list \<Rightarrow> (int \<times> int) list
     \<Rightarrow> error option \<times> attr list \<times> (int \<times> int) list" where
  "attach_all u [] rid table through = (None, table, through)"
| "attach_all u (n # ns) rid table through =
     (case get_or_create table u n of
        Inl e \<Rightarrow> (Some e, table, through)
      | Inr (a, created, table') \<Rightarrow>
          attach_all u ns rid table' (m2m_add through rid (attr_id a)))"

text \<open>
  A name is settled for a recipe when the user has exactly one row of that name and
  the row is paired with the recipe.
\<close>

definition settled :: "int \<Rightarrow> int \<Rightarrow> string \<Rightarrow> attr list \<Rightarrow> (int \<times> int) list \<Rightarrow> bool" where
  "settled u rid n table through =
     (case rows_named table u n of
        [a] \<Rightarrow> (rid, attr_id a) \<in> set through
      | _ \<Rightarrow> False)"

section \<open>Example data\<close>



text \<open>
  Two users. User 1 owns the recipes 1 and 2, the tags Vegan and Dinner and the
  ingredient Salt; user 2 owns recipe 3 and a tag Vegan of their own.
\<close>

definition curry :: recipe where
  "curry = \<lparr>recipe_id = 1, recipe_user = 1, title = ''Curry'', description = ''Hot'',
            time_minutes = 22, price = 521, link = ''http://example.com/curry.pdf'',
            image = None\<rparr>"

definition tahini :: recipe where
  "tahini = \<lparr>recipe_id = 2, recipe_user = 1, title = ''Tahini'', description = ''Paste'',
             time_minutes = 5, price = 450, link = [], image = None\<rparr>"

definition fish :: recipe where
  "fish = \<lparr>recipe_id = 3, recipe_user = 2, title = ''Fish'', description = ''Fried'',
           time_minutes = 30, price = 1450, link = [], image = None\<rparr>"

definition vegan :: attr where
  "vegan = \<lparr>attr_id = 1, attr_user = 1, attr_name = ''Vegan''\<rparr>"

definition dinner :: attr where
  "dinner = \<lparr>attr_id = 2, attr_user = 1, attr_name = ''Dinner''\<rparr>"

definition vegan2 :: attr where
  "vegan2 = \<lparr>attr_id = 3, attr_user = 2, attr_name = ''Vegan''\<rparr>"

definition salt :: attr where
  "salt = \<lparr>attr_id = 1, attr_user = 1, attr_name = ''Salt''\<rparr>"

definition sample_db :: db where
  "sample_db = \<lparr>users = [], recipes = [curry, tahini, fish],
                tags = [vegan, dinner, vegan2], ingredients = [salt],
                recipe_tags = [(1, 1), (1, 2), (2, 1), (3, 3)],
                recipe_ingredients = [(1, 1)]\<rparr>"

definition req_tags_1_2 :: request where
  "req_tags_1_2 = \<lparr>req_user = Some 1, query_params = [''tags'' \<mapsto> ''1,2'']\<rparr>"

definition req_assigned :: request where
  "req_assigned = \<lparr>req_user = Some 1, query_params = [''assigned_only'' \<mapsto> ''1'']\<rparr>"



text \<open>User 1 uploads an image for recipe 1.\<close>

definition req_user1 :: request where
  "req_user1 = \<lparr>req_user = Some 1, query_params = Map.empty\<rparr>"

text \<open>Update payloads: an empty tag list and nothing else; a new title and nothing else.\<close>

definition no_change :: validated_update where
  "no_change = \<lparr>u_title = None, u_description = None, u_time_minutes = None, u_price = None,
                u_link = None, u_image = None, u_tags = None, u_ingredients = None\<rparr>"

definition clear_tags :: validated_update where
  "clear_tags = no_change\<lparr>u_tags := Some []\<rparr>"

definition clear_ingredients :: validated_update where
  "clear_ingredients = no_change\<lparr>u_ingredients := Some []\<rparr>"

text \<open>User 1 creates a recipe tagged Dinner, which exists, and Breakfast, which is new.\<close>

definition porridge :: validated_create where
  "porridge = \<lparr>c_user = 1, c_title = ''Porridge'', c_description = [], c_time_minutes = 50,
               c_price = 2450, c_link = [], c_image = None,
               c_tags = Some [''Dinner'', ''Breakfast''], c_ingredients = None\<rparr>"

definition porridge_row :: recipe where
  "porridge_row = \<lparr>recipe_id = 4, recipe_user = 1, title = ''Porridge'', description = [],
                   time_minutes = 50, price = 2450, link = [], image = None\<rparr>"

definition breakfast :: attr where
  "breakfast = \<lparr>attr_id = 4, attr_user = 1, attr_name = ''Breakfast''\<rparr>"

definition sample_db_porridge :: db where
  "sample_db_porridge =
     sample_db\<lparr>recipes := [curry, tahini, fish, porridge_row],
               tags := [vegan, dinner, vegan2, breakfast],
               recipe_tags := [(1, 1), (1, 2), (2, 1), (3, 3), (4, 2), (4, 4)]\<rparr>"

text \<open>User 1 replaces the tags of recipe 1 by the new tag Lunch.\<close>

definition retag :: validated_update where
  "retag = no_change\<lparr>u_tags := Some [''Lunch'']\<rparr>"

definition lunch :: attr where
  "lunch = \<lparr>attr_id = 4, attr_user = 1, attr_name = ''Lunch''\<rparr>"

definition sample_db_retagged :: db where
  "sample_db_retagged =
     sample_db\<lparr>tags := [vegan, dinner, vegan2, lunch],
               recipe_tags := [(2, 1), (3, 3), (1, 4)]\<rparr>"

text \<open>The same creation with Dinner named twice.\<close>

definition porridge_twice :: validated_create where
  "porridge_twice = porridge\<lparr>c_tags := Some [''Dinner'', ''Breakfast'', ''Dinner'']\<rparr>"






section \<open>Parsing the id lists\<close>













section \<open>Writing and reading back an id list\<close>

declare digits_of.simps [simp del]

lemma digit_char_cases:
  "n < 10 \<Longrightarrow> digit_char n \<in> set ''0123456789'' \<and> digit_val (digit_char n) = int n"
proof -
  assume "n < 10"
  then have "n \<in> {0,1,2,3,4,5,6,7,8,9}" by auto
  then show ?thesis
    by (auto simp: digit_char_def digit_val_def)
qed

lemma is_digit_digit_char: "n < 10 \<Longrightarrow> is_digit (digit_char n)"
  using digit_char_cases[of n] by (simp add: is_digit_def)

lemma digit_val_digit_char: "n < 10 \<Longrightarrow> digit_val (digit_char n) = int n"
  using digit_char_cases[of n] by simp

lemma is_digit_plain:
  "is_digit c \<Longrightarrow> \<not> is_space c \<and> c \<noteq> CHR '','' \<and> c \<noteq> CHR ''-'' \<and> c \<noteq> CHR ''+'' \<and> c \<noteq> CHR ''_''"
  by (auto simp: is_digit_def is_space_def)

lemma digits_of_digits: "\<forall>c \<in> set (digits_of n). is_digit c"
proof (induction n rule: digits_of.induct)
  case (1 n)
  show ?case
  proof (cases "n < 10")
    case True
    then show ?thesis by (subst digits_of.simps) (simp add: is_digit_digit_char)
  next
    case False
    then show ?thesis using 1 by (subst digits_of.simps) (simp add: is_digit_digit_char)
  qed
qed

lemma digits_of_nonempty: "digits_of n \<noteq> []"
  by (subst digits_of.simps) simp

lemma parse_digits_append:
  "\<forall>c \<in> set ds. is_digit c \<Longrightarrow> is_digit c \<Longrightarrow> parse_digits ds acc = Some v
   \<Longrightarrow> parse_digits (ds @ [c]) acc = Some (10 * v + digit_val c)"
  by (induction ds arbitrary: acc) auto

lemma parse_digits_digits_of: "parse_digits (digits_of n) 0 = Some (int n)"
proof (induction n rule: digits_of.induct)
  case (1 n)
  show ?case
  proof (cases "n < 10")
    case True
    then show ?thesis
      by (subst digits_of.simps) (simp add: is_digit_digit_char digit_val_digit_char)
  next
    case False
    then have ih: "parse_digits (digits_of (n div 10)) 0 = Some (int (n div 10))"
      using 1 by simp
    have "parse_digits (digits_of (n div 10) @ [digit_char (n mod 10)]) 0
          = Some (10 * int (n div 10) + digit_val (digit_char (n mod 10)))"
      by (rule parse_digits_append[OF digits_of_digits _ ih]) (simp add: is_digit_digit_char)
    also have "\<dots> = Some (int n)"
      by (simp add: digit_val_digit_char) arith
    finally show ?thesis using False by (subst digits_of.simps) simp
  qed
qed

lemma parse_unsigned_digits_of: "parse_unsigned (digits_of n) = Inr (int n)"
proof -
  obtain c cs where cs: "digits_of n = c # cs"
    using digits_of_nonempty[of n] by (cases "digits_of n") auto
  then have "is_digit c" using digits_of_digits[of n] by simp
  then show ?thesis
    using parse_digits_digits_of[of n] cs by (simp add: parse_unsigned_def)
qed

lemma strip_id: "s \<noteq> [] \<Longrightarrow> \<not> is_space (hd s) \<Longrightarrow> \<not> is_space (last s) \<Longrightarrow> strip s = s"
proof -
  assume a: "s \<noteq> []" "\<not> is_space (hd s)" "\<not> is_space (last s)"
  then have 1: "dropWhile is_space s = s" by (cases s) auto
  have "rev s \<noteq> []" "\<not> is_space (hd (rev s))" using a by (auto simp: hd_rev)
  then have "dropWhile is_space (rev s) = rev s" by (cases "rev s") auto
  then show ?thesis by (simp add: strip_def 1)
qed

lemma strip_py_str: "strip (py_str i) = py_str i"
proof (rule strip_id)
  show "py_str i \<noteq> []" by (simp add: py_str_def digits_of_nonempty)
  have h: "is_digit (hd (digits_of n))" for n
    using digits_of_digits[of n] digits_of_nonempty[of n] by (cases "digits_of n") auto
  show "\<not> is_space (hd (py_str i))"
    using h is_digit_plain by (auto simp: py_str_def is_space_def)
  have l: "is_digit (last (digits_of n))" for n
    using digits_of_digits[of n] digits_of_nonempty[of n] last_in_set by blast
  show "\<not> is_space (last (py_str i))"
    using l is_digit_plain by (auto simp: py_str_def digits_of_nonempty)
qed

lemma py_int_py_str: "py_int (py_str i) = Inr i"
proof (cases "i < 0")
  case True
  then show ?thesis
    by (simp add: py_int_def strip_py_str) (simp add: py_str_def parse_unsigned_digits_of)
next
  case False
  obtain c cs where cs: "digits_of (nat i) = c # cs"
    using digits_of_nonempty[of "nat i"] by (cases "digits_of (nat i)") auto
  then have "is_digit c" using digits_of_digits[of "nat i"] by simp
  then have "c \<noteq> CHR ''-''" "c \<noteq> CHR ''+''" using is_digit_plain by auto
  then show ?thesis
    using False cs parse_unsigned_digits_of[of "nat i"]
    by (simp add: py_int_def strip_py_str) (simp add: py_str_def)
qed

lemma no_comma_py_str: "CHR '','' \<notin> set (py_str i)"
  using digits_of_digits is_digit_plain by (auto simp: py_str_def)

lemma py_str_nonempty: "py_str i \<noteq> []"
  by (simp add: py_str_def digits_of_nonempty)

lemma py_split_no_sep: "sep \<notin> set s \<Longrightarrow> py_split sep s = [s]"
  by (induction s) auto

lemma py_split_append: "sep \<notin> set s \<Longrightarrow> py_split sep (s @ sep # t) = s # py_split sep t"
  by (induction s) auto

lemma params_to_ints_pair:
  "params_to_ints (py_str i @ CHR '','' # py_str j) = Inr [i, j]"
  by (simp add: params_to_ints_def py_split_append py_split_no_sep no_comma_py_str py_int_py_str)

section \<open>The filters of the list views\<close>

lemma set_filter_related_id_in:
  "set (filter_related_id_in through ids qs)
   = {r \<in> set qs. \<exists>i \<in> set ids. (recipe_id r, i) \<in> set through}"
  by (force simp: filter_related_id_in_def)

lemma set_filter_recipe_notnull:
  "set (filter_recipe_notnull through qs) = {a \<in> set qs. attr_id a \<in> snd ` set through}"
  by (force simp: filter_recipe_notnull_def)

lemma py_int_one: "py_int ''1'' = Inr 1"
  by (simp add: py_int_def strip_def is_space_def parse_unsigned_def is_digit_def digit_val_def)

lemma attr_get_queryset_assigned:
  assumes "query_params req ''assigned_only'' = Some ''1''"
  shows "\<exists>items. attr_get_queryset req u table through = Inr items \<and> distinct items
           \<and> set items = {a \<in> set table. attr_user a = u \<and> attr_id a \<in> snd ` set through}"
  using assms
  by (auto simp: attr_get_queryset_def py_int_one Let_def set_filter_recipe_notnull)

text \<open>
  C6. For an authenticated user, the tag listing with \<open>assigned_only=1\<close> succeeds and
  returns exactly the user's tags whose id occurs in the through table, that is, tags
  assigned to at least one recipe, whichever recipe; no row comes twice. The same for
  the ingredient listing.
\<close>

theorem assigned_only_lists_each_item_once:
  assumes "req_user req = Some u"
    and "query_params req ''assigned_only'' = Some ''1''"
  shows "(\<exists>items. tag_list req d = Inr items \<and> distinct items
            \<and> set items = {a \<in> set (tags d). attr_user a = u
                              \<and> attr_id a \<in> snd ` set (recipe_tags d)})
       \<and> (\<exists>items. ingredient_list req d = Inr items \<and> distinct items
            \<and> set items = {a \<in> set (ingredients d). attr_user a = u
                              \<and> attr_id a \<in> snd ` set (recipe_ingredients d)})"
  using assms(1) attr_get_queryset_assigned[OF assms(2)]
  by (simp add: tag_list_def ingredient_list_def attr_list_def authenticate_def)

theorem assigned_only_lists_each_item_once_witness:
  "req_user req_assigned = Some 1
   \<and> query_params req_assigned ''assigned_only'' = Some ''1''
   \<and> tag_list req_assigned sample_db = Inr [dinner, vegan]
   \<and> ingredient_list req_assigned sample_db = Inr [salt]"
  using assigned_only_lists_each_item_once[of req_assigned 1 sample_db]
  by (simp add: req_assigned_def tag_list_def ingredient_list_def attr_list_def
      authenticate_def attr_get_queryset_def py_int_one filter_recipe_notnull_def sample_db_def
      vegan_def dinner_def vegan2_def salt_def)

lemma get_queryset_two_tags:
  assumes "query_params req ''tags'' = Some (py_str id1 @ '','' @ py_str id2)"
    and "query_params req ''ingredients'' = None"
  shows "\<exists>rs. get_queryset req u d = Inr rs \<and> distinct rs
           \<and> set rs = {r \<in> set (recipes d). recipe_user r = u
                            \<and> (recipe_id r, id1) \<in> set (recipe_tags d)}
                     \<union> {r \<in> set (recipes d). recipe_user r = u
                            \<and> (recipe_id r, id2) \<in> set (recipe_tags d)}"
  using assms py_str_nonempty[of id1]
  by (auto simp: get_queryset_def Let_def params_to_ints_pair set_filter_related_id_in)

lemma py_str_1_2: "py_str 1 = ''1''" "py_str 2 = ''2''"
  by (simp_all add: py_str_def digits_of.simps digit_char_def)

lemma recipe_list_1_2: "recipe_list req_tags_1_2 sample_db = Inr [tahini, curry]"
  by (simp add: recipe_list_def authenticate_def req_tags_1_2_def get_queryset_def
      params_to_ints_def py_int_def strip_def is_space_def parse_unsigned_def is_digit_def
      digit_val_def filter_related_id_in_def sample_db_def curry_def tahini_def fish_def)

text \<open>
  C7. For an authenticated user and tag ids \<open>id1\<close>, \<open>id2\<close>, the recipe listing with
  \<open>tags=<id1>,<id2>\<close> (the ids written in decimal, no \<open>ingredients\<close> parameter) succeeds
  and returns exactly the user's recipes that the through table pairs with \<open>id1\<close>,
  together with those it pairs with \<open>id2\<close>; no recipe comes twice.
\<close>

theorem tags_filter_is_union_without_duplicates:
  assumes "req_user req = Some u"
    and "query_params req ''tags'' = Some (py_str id1 @ '','' @ py_str id2)"
    and "query_params req ''ingredients'' = None"
  shows "\<exists>rs. recipe_list req d = Inr rs \<and> distinct rs
           \<and> set rs = {r \<in> set (recipes d). recipe_user r = u
                            \<and> (recipe_id r, id1) \<in> set (recipe_tags d)}
                     \<union> {r \<in> set (recipes d). recipe_user r = u
                            \<and> (recipe_id r, id2) \<in> set (recipe_tags d)}"
  using assms(1) get_queryset_two_tags[OF assms(2,3)]
  by (simp add: recipe_list_def authenticate_def)

theorem tags_filter_is_union_without_duplicates_witness:
  "req_user req_tags_1_2 = Some 1
   \<and> query_params req_tags_1_2 ''tags'' = Some (py_str 1 @ '','' @ py_str 2)
   \<and> query_params req_tags_1_2 ''ingredients'' = None
   \<and> recipe_list req_tags_1_2 sample_db = Inr [tahini, curry]"
  using tags_filter_is_union_without_duplicates[of req_tags_1_2 1 1 2 sample_db] recipe_list_1_2
  by (simp add: req_tags_1_2_def py_str_1_2)

section \<open>Records of other users\<close>




lemma get_queryset_subset:
  "get_queryset req u d = Inr qs \<Longrightarrow> set qs \<subseteq> {r \<in> set (recipes d). recipe_user r = u}"
  by (auto simp: get_queryset_def Let_def set_filter_related_id_in
      split: option.splits if_splits sum.splits)






lemma pk_ok_sample: "pk_ok sample_db"
  by (simp add: pk_ok_def sample_db_def curry_def tahini_def fish_def vegan_def dinner_def
      vegan2_def salt_def)



section \<open>The image upload\<close>

lemma get_object_member:
  "get_object req u pk d = Inr r \<Longrightarrow> r \<in> set (recipes d) \<and> recipe_id r = pk \<and> recipe_user r = u"
proof -
  assume a: "get_object req u pk d = Inr r"
  then obtain qs where qs: "get_queryset req u d = Inr qs"
    and f: "filter (\<lambda>r. recipe_id r = pk) qs = [r]"
    by (auto simp: get_object_def split: sum.splits list.splits)
  have "r \<in> set (filter (\<lambda>r. recipe_id r = pk) qs)" using f by simp
  then have "r \<in> set qs" "recipe_id r = pk" by auto
  then show ?thesis using get_queryset_subset[OF qs] by auto
qed

lemma save_existing:
  assumes "distinct (map recipe_id table)" and "r \<in> set table" and "recipe_id r' = recipe_id r"
  shows "save r' table = map (\<lambda>x. if x = r then r' else x) table"
proof -
  have "x \<in> set table \<Longrightarrow> (recipe_id x = recipe_id r) = (x = r)" for x
    using assms(1,2) by (meson distinct_map inj_onD)
  then have "map (\<lambda>x. if recipe_id x = recipe_id r' then r' else x) table
             = map (\<lambda>x. if x = r then r' else x) table"
    using assms(3) by (intro map_cong) auto
  then show ?thesis using assms(2,3) by (auto simp: save_def)
qed

text \<open>
  C10. Primary keys being unique, a successful upload-image request (status 200)
  addresses an existing recipe, carries a validated image value, and changes nothing
  but the image of that recipe: every recipe row keeps its id, owner, title,
  description, time, price and link, rows of other recipes keep their image too, and
  the through tables (the tag and ingredient associations) and every other table are
  the same before and after.
\<close>

theorem upload_image_changes_image_only:
  assumes "pk_ok d"
    and "upload_image req pk payload d = (Inr (200, b), d')"
  shows "(\<exists>r \<in> set (recipes d). recipe_id r = pk)
       \<and> length (recipes d') = length (recipes d)
       \<and> (\<exists>img. payload = Some img
            \<and> (\<forall>i < length (recipes d).
                  recipe_id (recipes d' ! i) = recipe_id (recipes d ! i)
                \<and> recipe_user (recipes d' ! i) = recipe_user (recipes d ! i)
                \<and> title (recipes d' ! i) = title (recipes d ! i)
                \<and> description (recipes d' ! i) = description (recipes d ! i)
                \<and> time_minutes (recipes d' ! i) = time_minutes (recipes d ! i)
                \<and> price (recipes d' ! i) = price (recipes d ! i)
                \<and> link (recipes d' ! i) = link (recipes d ! i)
                \<and> image (recipes d' ! i)
                    = (if recipe_id (recipes d ! i) = pk then img else image (recipes d ! i))))
       \<and> recipe_tags d' = recipe_tags d \<and> recipe_ingredients d' = recipe_ingredients d
       \<and> tags d' = tags d \<and> ingredients d' = ingredients d \<and> users d' = users d"
proof -
  from assms(2) obtain u r img where u: "req_user req = Some u"
    and r: "get_object req u pk d = Inr r" and p: "payload = Some img"
    and d': "d' = d\<lparr>recipes := save (r\<lparr>image := img\<rparr>) (recipes d)\<rparr>"
    by (auto simp: upload_image_def authenticate_def Let_def
        split: option.splits sum.splits)
  have m: "r \<in> set (recipes d)" "recipe_id r = pk" using get_object_member[OF r] by auto
  have s: "save (r\<lparr>image := img\<rparr>) (recipes d)
           = map (\<lambda>x. if x = r then r\<lparr>image := img\<rparr> else x) (recipes d)"
    using assms(1) m by (intro save_existing) (simp_all add: pk_ok_def)
  have k: "x \<in> set (recipes d) \<Longrightarrow> (recipe_id x = pk) = (x = r)" for x
    using assms(1) m unfolding pk_ok_def by (meson distinct_map inj_onD)
  have "\<forall>i < length (recipes d). (recipe_id (recipes d ! i) = pk) = (recipes d ! i = r)"
    using k by simp
  then show ?thesis
    using m p d' s by auto
qed

lemma upload_curry:
  "upload_image req_user1 1 (Some (Some ''curry.jpg'')) sample_db
   = (Inr (200, ImageData 1 (Some ''curry.jpg'')),
      sample_db\<lparr>recipes := [curry\<lparr>image := Some ''curry.jpg''\<rparr>, tahini, fish]\<rparr>)"
  by (simp add: upload_image_def authenticate_def req_user1_def get_object_def get_queryset_def
        save_def sample_db_def curry_def tahini_def fish_def)

theorem upload_image_changes_image_only_witness:
  "pk_ok sample_db
   \<and> upload_image req_user1 1 (Some (Some ''curry.jpg'')) sample_db
     = (Inr (200, ImageData 1 (Some ''curry.jpg'')),
        sample_db\<lparr>recipes := [curry\<lparr>image := Some ''curry.jpg''\<rparr>, tahini, fish]\<rparr>)
   \<and> recipe_tags (sample_db\<lparr>recipes := [curry\<lparr>image := Some ''curry.jpg''\<rparr>, tahini, fish]\<rparr>)
     = recipe_tags sample_db"
  using upload_image_changes_image_only[OF pk_ok_sample upload_curry] pk_ok_sample upload_curry
  by simp

section \<open>Updating a recipe\<close>

lemma get_or_create_tags_frame:
  "get_or_create_tags au ns r d = (res, d') \<Longrightarrow>
     recipes d' = recipes d \<and> users d' = users d \<and> ingredients d' = ingredients d
     \<and> recipe_ingredients d' = recipe_ingredients d"
proof (induction ns arbitrary: d)
  case Nil
  then show ?case by simp
next
  case (Cons n ns)
  show ?case
  proof (cases "get_or_create (tags d) au n")
    case (Inl e)
    then show ?thesis using Cons.prems by simp
  next
    case (Inr x)
    then obtain tag created table where x: "x = (tag, created, table)" by (cases x) auto
    let ?d1 = "d\<lparr>tags := table,
                  recipe_tags := m2m_add (recipe_tags d) (recipe_id r) (attr_id tag)\<rparr>"
    have "get_or_create_tags au ns r ?d1 = (res, d')"
      using Cons.prems Inr x by simp
    from Cons.IH[OF this] show ?thesis by simp
  qed
qed

lemma get_or_create_ingredients_frame:
  "get_or_create_ingredients au ns r d = (res, d') \<Longrightarrow>
     recipes d' = recipes d \<and> users d' = users d \<and> tags d' = tags d
     \<and> recipe_tags d' = recipe_tags d"
proof (induction ns arbitrary: d)
  case Nil
  then show ?case by simp
next
  case (Cons n ns)
  show ?case
  proof (cases "get_or_create (ingredients d) au n")
    case (Inl e)
    then show ?thesis using Cons.prems by simp
  next
    case (Inr x)
    then obtain ing created table where x: "x = (ing, created, table)" by (cases x) auto
    let ?d1 = "d\<lparr>ingredients := table,
                  recipe_ingredients :=
                    m2m_add (recipe_ingredients d) (recipe_id r) (attr_id ing)\<rparr>"
    have "get_or_create_ingredients au ns r ?d1 = (res, d')"
      using Cons.prems Inr x by simp
    from Cons.IH[OF this] show ?thesis by simp
  qed
qed

lemma replace_tags_frame:
  "replace_tags au inst ts d = (res, d') \<Longrightarrow>
     recipes d' = recipes d \<and> users d' = users d \<and> ingredients d' = ingredients d
     \<and> recipe_ingredients d' = recipe_ingredients d"
  by (cases ts) (auto simp: replace_tags_def dest!: get_or_create_tags_frame)

lemma replace_ingredients_frame:
  "replace_ingredients au inst ns d = (res, d') \<Longrightarrow>
     recipes d' = recipes d \<and> users d' = users d \<and> tags d' = tags d
     \<and> recipe_tags d' = recipe_tags d"
  by (cases ns) (auto simp: replace_ingredients_def dest!: get_or_create_ingredients_frame)

text \<open>The three ways through \<open>update\<close>.\<close>

lemma update_cases:
  obtains (tags_raise) e d1 where
      "replace_tags au inst (u_tags vd) d = (Some e, d1)"
      "update au inst vd d = (Inl e, d1)"
  | (ingredients_raise) d1 e d2 where
      "replace_tags au inst (u_tags vd) d = (None, d1)"
      "replace_ingredients au inst (u_ingredients vd) d1 = (Some e, d2)"
      "update au inst vd d = (Inl e, d2)"
  | (saved) d1 d2 where
      "replace_tags au inst (u_tags vd) d = (None, d1)"
      "replace_ingredients au inst (u_ingredients vd) d1 = (None, d2)"
      "update au inst vd d
       = (Inr (set_attrs inst vd), d2\<lparr>recipes := save (set_attrs inst vd) (recipes d2)\<rparr>)"
proof -
  obtain r1 d1 where 1: "replace_tags au inst (u_tags vd) d = (r1, d1)" by fastforce
  obtain r2 d2 where 2: "replace_ingredients au inst (u_ingredients vd) d1 = (r2, d2)"
    by fastforce
  show thesis
  proof (cases r1)
    case (Some e)
    then show ?thesis using 1 tags_raise by (simp add: update_def)
  next
    case None
    show ?thesis
    proof (cases r2)
      case (Some e)
      then show ?thesis using 1 2 None ingredients_raise by (simp add: update_def)
    next
      case None': None
      then show ?thesis using 1 2 None saved by (simp add: update_def Let_def)
    qed
  qed
qed

lemma update_recipe_tags:
  "recipe_tags (snd (update au inst vd d)) = recipe_tags (snd (replace_tags au inst (u_tags vd) d))"
proof (cases rule: update_cases[of au inst vd d])
  case (tags_raise e d1)
  then show ?thesis by simp
next
  case (ingredients_raise d1 e d2)
  then show ?thesis using replace_ingredients_frame[OF ingredients_raise(2)] by simp
next
  case (saved d1 d2)
  then show ?thesis using replace_ingredients_frame[OF saved(2)] by simp
qed

lemma update_recipe_ingredients_absent:
  assumes "u_ingredients vd = None"
  shows "recipe_ingredients (snd (update au inst vd d)) = recipe_ingredients d"
proof (cases rule: update_cases[of au inst vd d])
  case (tags_raise e d1)
  then show ?thesis using replace_tags_frame[OF tags_raise(1)] by simp
next
  case (ingredients_raise d1 e d2)
  then show ?thesis using assms by (simp add: replace_ingredients_def)
next
  case (saved d1 d2)
  then show ?thesis
    using assms replace_tags_frame[OF saved(1)] by (simp add: replace_ingredients_def)
qed

lemma update_recipe_ingredients_empty:
  assumes "u_ingredients vd = Some []" and "fst (update au inst vd d) = Inr r"
  shows "recipe_ingredients (snd (update au inst vd d))
         = filter (\<lambda>p. fst p \<noteq> recipe_id inst) (recipe_ingredients d)"
proof (cases rule: update_cases[of au inst vd d])
  case (tags_raise e d1)
  then show ?thesis using assms(2) by simp
next
  case (ingredients_raise d1 e d2)
  then show ?thesis using assms(2) by simp
next
  case (saved d1 d2)
  then show ?thesis
    using assms(1) replace_tags_frame[OF saved(1)]
    by (auto simp: replace_ingredients_def m2m_clear_def)
qed

lemma update_without_items_succeeds:
  assumes "u_tags vd \<in> {None, Some []}" and "u_ingredients vd \<in> {None, Some []}"
  shows "\<exists>r. fst (update au inst vd d) = Inr r"
proof (cases rule: update_cases[of au inst vd d])
  case (tags_raise e d1)
  then show ?thesis using assms(1) by (auto simp: replace_tags_def)
next
  case (ingredients_raise d1 e d2)
  then show ?thesis using assms(2) by (auto simp: replace_ingredients_def)
next
  case (saved d1 d2)
  then show ?thesis by simp
qed

text \<open>
  C2. For every recipe instance and every validated update that returns the recipe:
  with \<open>tags\<close> given as the empty list, the through table afterwards is the old one
  without the pairs of this recipe, so the recipe has no tag association left; with
  \<open>tags\<close> absent, the through table is the old one. The same holds for \<open>ingredients\<close> and
  its through table. An update whose two lists are absent or empty always returns the
  recipe.
\<close>

theorem update_clears_given_list_keeps_absent:
  "((\<exists>r. fst (update au inst vd d) = Inr r) \<longrightarrow>
      (u_tags vd = Some [] \<longrightarrow>
         recipe_tags (snd (update au inst vd d))
         = filter (\<lambda>p. fst p \<noteq> recipe_id inst) (recipe_tags d))
    \<and> (u_tags vd = None \<longrightarrow> recipe_tags (snd (update au inst vd d)) = recipe_tags d)
    \<and> (u_ingredients vd = Some [] \<longrightarrow>
         recipe_ingredients (snd (update au inst vd d))
         = filter (\<lambda>p. fst p \<noteq> recipe_id inst) (recipe_ingredients d))
    \<and> (u_ingredients vd = None \<longrightarrow>
         recipe_ingredients (snd (update au inst vd d)) = recipe_ingredients d))
 \<and> (u_tags vd \<in> {None, Some []} \<and> u_ingredients vd \<in> {None, Some []} \<longrightarrow>
      (\<exists>r. fst (update au inst vd d) = Inr r))"
proof (intro conjI impI)
  assume "u_tags vd = Some []"
  then show "recipe_tags (snd (update au inst vd d))
      = filter (\<lambda>p. fst p \<noteq> recipe_id inst) (recipe_tags d)"
    by (simp add: update_recipe_tags replace_tags_def m2m_clear_def)
next
  assume "u_tags vd = None"
  then show "recipe_tags (snd (update au inst vd d)) = recipe_tags d"
    by (simp add: update_recipe_tags replace_tags_def)
next
  assume "\<exists>r. fst (update au inst vd d) = Inr r" and "u_ingredients vd = Some []"
  then show "recipe_ingredients (snd (update au inst vd d))
      = filter (\<lambda>p. fst p \<noteq> recipe_id inst) (recipe_ingredients d)"
    using update_recipe_ingredients_empty by blast
next
  assume "u_ingredients vd = None"
  then show "recipe_ingredients (snd (update au inst vd d)) = recipe_ingredients d"
    by (rule update_recipe_ingredients_absent)
next
  assume "u_tags vd \<in> {None, Some []} \<and> u_ingredients vd \<in> {None, Some []}"
  then show "\<exists>r. fst (update au inst vd d) = Inr r"
    using update_without_items_succeeds by blast
qed

lemma update_clear_tags_curry:
  "update 1 curry clear_tags sample_db
   = (Inr curry, sample_db\<lparr>recipe_tags := [(2, 1), (3, 3)]\<rparr>)"
  by (simp add: update_def replace_tags_def replace_ingredients_def clear_tags_def no_change_def
      Let_def m2m_clear_def set_attrs_def save_def sample_db_def curry_def tahini_def fish_def)

lemma update_clear_ingredients_curry:
  "update 1 curry clear_ingredients sample_db
   = (Inr curry, sample_db\<lparr>recipe_ingredients := []\<rparr>)"
  by (simp add: update_def replace_tags_def replace_ingredients_def clear_ingredients_def
      no_change_def Let_def m2m_clear_def set_attrs_def save_def sample_db_def curry_def
      tahini_def fish_def)

theorem update_clears_given_list_keeps_absent_witness:
  "u_tags clear_tags = Some [] \<and> u_ingredients clear_tags = None
   \<and> update 1 curry clear_tags sample_db
     = (Inr curry, sample_db\<lparr>recipe_tags := [(2, 1), (3, 3)]\<rparr>)
   \<and> recipe_ingredients (snd (update 1 curry clear_tags sample_db))
     = recipe_ingredients sample_db
   \<and> u_tags clear_ingredients = None \<and> u_ingredients clear_ingredients = Some []
   \<and> update 1 curry clear_ingredients sample_db
     = (Inr curry, sample_db\<lparr>recipe_ingredients := []\<rparr>)
   \<and> recipe_tags (snd (update 1 curry clear_ingredients sample_db)) = recipe_tags sample_db"
  using update_clears_given_list_keeps_absent[of 1 curry clear_tags sample_db]
    update_clears_given_list_keeps_absent[of 1 curry clear_ingredients sample_db]
    update_clear_tags_curry update_clear_ingredients_curry
  by (simp add: clear_tags_def clear_ingredients_def no_change_def)

section \<open>The reconciliation loop\<close>

lemma fold_max_ge: "fold max ids (acc::int) \<ge> acc \<and> (\<forall>x \<in> set ids. x \<le> fold max ids acc)"
proof (induction ids arbitrary: acc)
  case Nil
  then show ?case by simp
next
  case (Cons a ids)
  have "max a acc \<le> fold max ids (max a acc)" using Cons.IH by blast
  moreover have "\<forall>x \<in> set ids. x \<le> fold max ids (max a acc)" using Cons.IH by blast
  ultimately show ?case by auto
qed

lemma next_id_fresh: "next_id ids \<notin> set ids"
proof
  assume "next_id ids \<in> set ids"
  then have "next_id ids \<le> fold max ids 0" using fold_max_ge by blast
  then show False by (simp add: next_id_def)
qed

lemma rows_named_append:
  "rows_named (t @ s) u n = rows_named t u n @ rows_named s u n"
  by (simp add: rows_named_def)

lemma rows_named_subset: "set (rows_named t u n) \<subseteq> set t"
  by (auto simp: rows_named_def)

lemma rows_named_member:
  "a \<in> set (rows_named t u n) \<longleftrightarrow> a \<in> set t \<and> attr_user a = u \<and> attr_name a = n"
  by (auto simp: rows_named_def)

lemma get_or_create_cases [case_names found created multiple]:
  obtains (found) a where
      "rows_named table u n = [a]"
      "get_or_create table u n = Inr (a, False, table)"
  | (created)
      "rows_named table u n = []"
      "get_or_create table u n
       = Inr (\<lparr>attr_id = next_id (map attr_id table), attr_user = u, attr_name = n\<rparr>, True,
              table @ [\<lparr>attr_id = next_id (map attr_id table), attr_user = u, attr_name = n\<rparr>])"
  | (multiple)
      "2 \<le> length (rows_named table u n)"
      "get_or_create table u n = Inl MultipleObjectsReturned"
proof (cases "rows_named table u n")
  case Nil
  then show ?thesis
    using created by (simp add: get_or_create_def objects_get_def rows_named_def Let_def)
next
  case (Cons a as)
  show ?thesis
  proof (cases as)
    case Nil
    then show ?thesis
      using Cons found by (simp add: get_or_create_def objects_get_def rows_named_def)
  next
    case (Cons b bs)
    then show ?thesis
      using \<open>rows_named table u n = a # as\<close> multiple
      by (simp add: get_or_create_def objects_get_def rows_named_def)
  qed
qed

lemma get_or_create_tags_attach:
  "get_or_create_tags au ns r d
   = (case attach_all au ns (recipe_id r) (tags d) (recipe_tags d) of
        (res, table, through) \<Rightarrow> (res, d\<lparr>tags := table, recipe_tags := through\<rparr>))"
proof (induction ns arbitrary: d)
  case Nil
  then show ?case by simp
next
  case (Cons n ns)
  show ?case
  proof (cases "get_or_create (tags d) au n")
    case (Inl e)
    then show ?thesis by simp
  next
    case (Inr x)
    obtain a c t where "x = (a, c, t)" by (cases x) auto
    then show ?thesis using Inr Cons.IH by simp
  qed
qed

lemma get_or_create_ingredients_attach:
  "get_or_create_ingredients au ns r d
   = (case attach_all au ns (recipe_id r) (ingredients d) (recipe_ingredients d) of
        (res, table, through) \<Rightarrow> (res, d\<lparr>ingredients := table, recipe_ingredients := through\<rparr>))"
proof (induction ns arbitrary: d)
  case Nil
  then show ?case by simp
next
  case (Cons n ns)
  show ?case
  proof (cases "get_or_create (ingredients d) au n")
    case (Inl e)
    then show ?thesis by simp
  next
    case (Inr x)
    obtain a c t where "x = (a, c, t)" by (cases x) auto
    then show ?thesis using Inr Cons.IH by simp
  qed
qed

lemma get_or_create_Inr:
  assumes "get_or_create table u n = Inr (a, c, table')"
  shows "attr_user a = u" and "attr_name a = n" and "rows_named table' u n = [a]"
    and "(\<not> c \<and> table' = table \<and> rows_named table u n = [a])
       \<or> (c \<and> table' = table @ [a] \<and> rows_named table u n = []
            \<and> attr_id a \<notin> attr_id ` set table)"
proof -
  have "attr_user a = u \<and> attr_name a = n \<and> rows_named table' u n = [a]
      \<and> ((\<not> c \<and> table' = table \<and> rows_named table u n = [a])
       \<or> (c \<and> table' = table @ [a] \<and> rows_named table u n = []
            \<and> attr_id a \<notin> attr_id ` set table))"
  proof (cases rule: get_or_create_cases[of table u n])
    case (found b)
    then have "b \<in> set (rows_named table u n)" by simp
    then have "attr_user b = u" "attr_name b = n" by (simp_all add: rows_named_member)
    then show ?thesis using found assms by auto
  next
    case created
    have "next_id (map attr_id table) \<notin> attr_id ` set table"
      using next_id_fresh[of "map attr_id table"] by simp
    then show ?thesis
      using created assms by (auto simp: rows_named_append) (simp add: rows_named_def)
  next
    case multiple
    then show ?thesis using assms by simp
  qed
  then show "attr_user a = u" and "attr_name a = n" and "rows_named table' u n = [a]"
    and "(\<not> c \<and> table' = table \<and> rows_named table u n = [a])
       \<or> (c \<and> table' = table @ [a] \<and> rows_named table u n = []
            \<and> attr_id a \<notin> attr_id ` set table)"
    by blast+
qed

lemma get_or_create_other_rows:
  assumes "get_or_create table u n = Inr (a, c, table')" and "v \<noteq> u \<or> m \<noteq> n"
  shows "rows_named table' v m = rows_named table v m"
  using get_or_create_Inr[OF assms(1)] assms(2)
  by (auto simp: rows_named_append) (auto simp: rows_named_def)

lemma get_or_create_error: "get_or_create table u n = Inl e \<Longrightarrow> e = MultipleObjectsReturned"
  by (cases rule: get_or_create_cases[of table u n]) auto

lemma set_m2m_add: "set (m2m_add through rid aid) = insert (rid, aid) (set through)"
  by (auto simp: m2m_add_def)

lemma m2m_add_present: "(rid, aid) \<in> set through \<Longrightarrow> m2m_add through rid aid = through"
  by (simp add: m2m_add_def)

lemma step_settles:
  assumes "get_or_create table u n = Inr (a, c, table')"
  shows "settled u rid n table' (m2m_add through rid (attr_id a))"
  using get_or_create_Inr(3)[OF assms] by (simp add: settled_def set_m2m_add)

lemma step_keeps_settled:
  assumes "settled u rid n table through" and "get_or_create table u m = Inr (b, c, table')"
  shows "rows_named table' u n = rows_named table u n
       \<and> settled u rid n table' (m2m_add through rid (attr_id b))"
proof (cases "m = n")
  case True
  from assms(1) obtain a where a: "rows_named table u n = [a]"
    by (auto simp: settled_def split: list.splits)
  then have "table' = table" using get_or_create_Inr(4)[OF assms(2)] True by auto
  then show ?thesis using assms(1) by (auto simp: settled_def set_m2m_add split: list.splits)
next
  case False
  then have "rows_named table' u n = rows_named table u n"
    using get_or_create_other_rows[OF assms(2)] by simp
  then show ?thesis using assms(1) by (auto simp: settled_def set_m2m_add split: list.splits)
qed

lemma settled_step_noop:
  assumes "settled u rid n table through"
  shows "\<exists>a. get_or_create table u n = Inr (a, False, table)
           \<and> m2m_add through rid (attr_id a) = through"
proof -
  from assms obtain a where a: "rows_named table u n = [a]" "(rid, attr_id a) \<in> set through"
    by (auto simp: settled_def split: list.splits)
  have "get_or_create table u n = Inr (a, False, table)"
    using a(1) by (cases rule: get_or_create_cases[of table u n]) auto
  then show ?thesis using a(2) by (simp add: m2m_add_present)
qed

lemma attach_all_settled_noop:
  "settled u rid n table through \<Longrightarrow>
     attach_all u ns rid table through = attach_all u (removeAll n ns) rid table through"
proof (induction ns arbitrary: table through)
  case Nil
  then show ?case by simp
next
  case (Cons m ms)
  show ?case
  proof (cases "m = n")
    case True
    obtain a where "get_or_create table u n = Inr (a, False, table)"
      "m2m_add through rid (attr_id a) = through"
      using settled_step_noop[OF Cons.prems] by blast
    then show ?thesis using True Cons.IH[OF Cons.prems] by simp
  next
    case False
    show ?thesis
    proof (cases "get_or_create table u m")
      case (Inl e)
      then show ?thesis using False by simp
    next
      case (Inr x)
      obtain b c t where x: "x = (b, c, t)" by (cases x) auto
      have "settled u rid n t (m2m_add through rid (attr_id b))"
        using step_keeps_settled[OF Cons.prems] Inr x by blast
      from Cons.IH[OF this] show ?thesis using False Inr x by simp
    qed
  qed
qed

lemma attach_all_dedup:
  "attach_all u (dedup ns) rid table through = attach_all u ns rid table through"
proof (induction ns arbitrary: table through rule: dedup.induct)
  case 1
  then show ?case by simp
next
  case (2 x xs)
  show ?case
  proof (cases "get_or_create table u x")
    case (Inl e)
    then show ?thesis by simp
  next
    case (Inr y)
    obtain a c t where y: "y = (a, c, t)" by (cases y) auto
    have s: "settled u rid x t (m2m_add through rid (attr_id a))"
      using step_settles Inr y by blast
    have "attach_all u (dedup (x # xs)) rid table through
          = attach_all u (dedup (removeAll x xs)) rid t (m2m_add through rid (attr_id a))"
      using Inr y by simp
    also have "\<dots> = attach_all u (removeAll x xs) rid t (m2m_add through rid (attr_id a))"
      by (rule "2.IH")
    also have "\<dots> = attach_all u xs rid t (m2m_add through rid (attr_id a))"
      using attach_all_settled_noop[OF s] by simp
    also have "\<dots> = attach_all u (x # xs) rid table through"
      using Inr y by simp
    finally show ?thesis .
  qed
qed

lemma attach_all_keeps_settled:
  "settled u rid n table through \<Longrightarrow> attach_all u ns rid table through = (res, t', th')
   \<Longrightarrow> rows_named t' u n = rows_named table u n \<and> settled u rid n t' th'"
proof (induction ns arbitrary: table through)
  case Nil
  then show ?case by simp
next
  case (Cons m ms)
  show ?case
  proof (cases "get_or_create table u m")
    case (Inl e)
    then show ?thesis using Cons.prems by simp
  next
    case (Inr x)
    obtain b c t where x: "x = (b, c, t)" by (cases x) auto
    have k: "rows_named t u n = rows_named table u n"
      "settled u rid n t (m2m_add through rid (attr_id b))"
      using step_keeps_settled[OF Cons.prems(1)] Inr x by blast+
    have "attach_all u ms rid t (m2m_add through rid (attr_id b)) = (res, t', th')"
      using Cons.prems(2) Inr x by simp
    from Cons.IH[OF k(2) this] show ?thesis using k(1) by simp
  qed
qed

lemma attach_all_grows:
  "attach_all u ns rid table through = (res, t', th')
   \<Longrightarrow> attr_id ` set table \<subseteq> attr_id ` set t'"
proof (induction ns arbitrary: table through)
  case Nil
  then show ?case by simp
next
  case (Cons m ms)
  show ?case
  proof (cases "get_or_create table u m")
    case (Inl e)
    then show ?thesis using Cons.prems by simp
  next
    case (Inr x)
    obtain b c t where x: "x = (b, c, t)" by (cases x) auto
    have "attach_all u ms rid t (m2m_add through rid (attr_id b)) = (res, t', th')"
      using Cons.prems Inr x by simp
    from Cons.IH[OF this] have "attr_id ` set t \<subseteq> attr_id ` set t'" .
    moreover have "set table \<subseteq> set t"
      using get_or_create_Inr(4)[of table u m b c t] Inr x by auto
    ultimately show ?thesis by blast
  qed
qed

lemma attach_all_member:
  "n \<in> set ns \<Longrightarrow> attach_all u ns rid table through = (None, t', th')
   \<Longrightarrow> settled u rid n t' th'
     \<and> (rows_named table u n \<noteq> [] \<longrightarrow> rows_named t' u n = rows_named table u n)
     \<and> (rows_named table u n = [] \<longrightarrow>
          (\<exists>a. rows_named t' u n = [a] \<and> attr_id a \<notin> attr_id ` set table))"
proof (induction ns arbitrary: table through)
  case Nil
  then show ?case by simp
next
  case (Cons m ms)
  show ?case
  proof (cases "get_or_create table u m")
    case (Inl e)
    then show ?thesis using Cons.prems by simp
  next
    case (Inr x)
    obtain b c t where x: "x = (b, c, t)" by (cases x) auto
    have g: "get_or_create table u m = Inr (b, c, t)" using Inr x by simp
    have rest: "attach_all u ms rid t (m2m_add through rid (attr_id b)) = (None, t', th')"
      using Cons.prems(2) g by simp
    show ?thesis
    proof (cases "m = n")
      case True
      have s: "settled u rid n t (m2m_add through rid (attr_id b))"
        using step_settles[OF g] True by simp
      have k: "rows_named t' u n = rows_named t u n" "settled u rid n t' th'"
        using attach_all_keeps_settled[OF s rest] by blast+
      have b: "rows_named t u n = [b]" using get_or_create_Inr(3)[OF g] True by simp
      show ?thesis
        using k b get_or_create_Inr(4)[OF g] True by auto
    next
      case False
      then have n: "n \<in> set ms" using Cons.prems(1) by simp
      have same: "rows_named t u n = rows_named table u n"
        using get_or_create_other_rows[OF g] False by simp
      have sub: "attr_id ` set table \<subseteq> attr_id ` set t"
        using get_or_create_Inr(4)[OF g] by auto
      note ih = Cons.IH[OF n rest]
      have 1: "settled u rid n t' th'" using ih by (rule conjunct1)
      have 2: "rows_named t u n \<noteq> [] \<longrightarrow> rows_named t' u n = rows_named t u n"
        using ih by (elim conjE)
      have 3: "rows_named t u n = [] \<longrightarrow>
          (\<exists>a. rows_named t' u n = [a] \<and> attr_id a \<notin> attr_id ` set t)"
        using ih by (elim conjE)
      have 4: "rows_named table u n = [] \<longrightarrow>
          (\<exists>a. rows_named t' u n = [a] \<and> attr_id a \<notin> attr_id ` set table)"
      proof
        assume "rows_named table u n = []"
        then have "rows_named t u n = []" using same by simp
        then obtain a where a: "rows_named t' u n = [a]" "attr_id a \<notin> attr_id ` set t"
          using 3 by blast
        have "attr_id a \<notin> attr_id ` set table" using a(2) sub by (meson subsetD)
        then show "\<exists>a. rows_named t' u n = [a] \<and> attr_id a \<notin> attr_id ` set table"
          using a(1) by (intro exI[of _ a] conjI)
      qed
      have 5: "rows_named table u n \<noteq> [] \<longrightarrow> rows_named t' u n = rows_named table u n"
        using 2 same by simp
      show ?thesis using 1 4 5 by (intro conjI)
    qed
  qed
qed

lemma names_unique_rows:
  assumes "names_unique table"
  shows "length (rows_named table u n) \<le> 1"
proof (cases "rows_named table u n")
  case Nil
  then show ?thesis by simp
next
  case (Cons a as)
  show ?thesis
  proof (cases as)
    case Nil
    then show ?thesis using Cons by simp
  next
    case (Cons b bs)
    have r: "rows_named table u n = a # b # bs"
      using \<open>rows_named table u n = a # as\<close> Cons by simp
    have "distinct (map (\<lambda>a. (attr_user a, attr_name a)) (rows_named table u n))"
      using assms by (simp add: names_unique_def rows_named_def distinct_map_filter)
    then have "(attr_user a, attr_name a) \<noteq> (attr_user b, attr_name b)"
      unfolding r by simp
    moreover have "a \<in> set (rows_named table u n)" "b \<in> set (rows_named table u n)"
      unfolding r by simp_all
    then have "attr_user a = u" "attr_name a = n" "attr_user b = u" "attr_name b = n"
      by (simp_all add: rows_named_member)
    ultimately show ?thesis by simp
  qed
qed

lemma get_or_create_unique:
  assumes "names_unique table"
  shows "\<exists>a c t. get_or_create table u n = Inr (a, c, t) \<and> names_unique t"
proof (cases rule: get_or_create_cases[of table u n])
  case (found a)
  then show ?thesis using assms by (intro exI[of _ a] exI[of _ False] exI[of _ table]) simp
next
  case created
  have "(u, n) \<notin> (\<lambda>a. (attr_user a, attr_name a)) ` set table"
  proof
    assume "(u, n) \<in> (\<lambda>a. (attr_user a, attr_name a)) ` set table"
    then obtain a where "a \<in> set table" "attr_user a = u" "attr_name a = n" by auto
    then have "a \<in> set (rows_named table u n)" by (simp add: rows_named_member)
    then show False using created(1) by simp
  qed
  then have "names_unique (table @ [\<lparr>attr_id = next_id (map attr_id table), attr_user = u,
                                         attr_name = n\<rparr>])"
    using assms by (simp add: names_unique_def)
  then show ?thesis using created(2) by blast
next
  case multiple
  then show ?thesis using names_unique_rows[OF assms, of u n] by simp
qed

lemma attach_all_unique_succeeds:
  "names_unique table \<Longrightarrow>
     \<exists>t' th'. attach_all u ns rid table through = (None, t', th') \<and> names_unique t'"
proof (induction ns arbitrary: table through)
  case Nil
  then show ?case by simp
next
  case (Cons m ms)
  obtain a c t where g: "get_or_create table u m = Inr (a, c, t)" and "names_unique t"
    using get_or_create_unique[OF Cons.prems] by blast
  from Cons.IH[OF this(2)] show ?case using g by simp
qed

section \<open>Creating and updating with names\<close>

lemma tags_loop_result:
  "get_or_create_tags au ns r d = (res, d') \<Longrightarrow>
     attach_all au ns (recipe_id r) (tags d) (recipe_tags d) = (res, tags d', recipe_tags d')"
  by (auto simp: get_or_create_tags_attach split: prod.splits)

lemma ingredients_loop_result:
  "get_or_create_ingredients au ns r d = (res, d') \<Longrightarrow>
     attach_all au ns (recipe_id r) (ingredients d) (recipe_ingredients d)
     = (res, ingredients d', recipe_ingredients d')"
  by (auto simp: get_or_create_ingredients_attach split: prod.splits)

text \<open>The three ways through \<open>create\<close>.\<close>

lemma create_cases:
  obtains (tags_raise) e d2 where
      "get_or_create_tags au (pop_list (c_tags vd)) (objects_create vd (recipes d))
         (d\<lparr>recipes := recipes d @ [objects_create vd (recipes d)]\<rparr>) = (Some e, d2)"
      "create au vd d = (Inl e, d2)"
  | (ingredients_raise) d2 e d3 where
      "get_or_create_tags au (pop_list (c_tags vd)) (objects_create vd (recipes d))
         (d\<lparr>recipes := recipes d @ [objects_create vd (recipes d)]\<rparr>) = (None, d2)"
      "get_or_create_ingredients au (pop_list (c_ingredients vd))
         (objects_create vd (recipes d)) d2 = (Some e, d3)"
      "create au vd d = (Inl e, d3)"
  | (made) d2 d3 where
      "get_or_create_tags au (pop_list (c_tags vd)) (objects_create vd (recipes d))
         (d\<lparr>recipes := recipes d @ [objects_create vd (recipes d)]\<rparr>) = (None, d2)"
      "get_or_create_ingredients au (pop_list (c_ingredients vd))
         (objects_create vd (recipes d)) d2 = (None, d3)"
      "create au vd d = (Inr (objects_create vd (recipes d)), d3)"
proof -
  let ?r = "objects_create vd (recipes d)"
  obtain r1 d2 where 1: "get_or_create_tags au (pop_list (c_tags vd)) ?r
         (d\<lparr>recipes := recipes d @ [?r]\<rparr>) = (r1, d2)" by fastforce
  obtain r2 d3 where 2: "get_or_create_ingredients au (pop_list (c_ingredients vd)) ?r d2
         = (r2, d3)" by fastforce
  show thesis
  proof (cases r1)
    case (Some e)
    then show ?thesis using 1 tags_raise by (simp add: create_def Let_def)
  next
    case None
    show ?thesis
    proof (cases r2)
      case (Some e)
      then show ?thesis using 1 2 None ingredients_raise by (simp add: create_def Let_def)
    next
      case None': None
      then show ?thesis using 1 2 None made by (simp add: create_def Let_def)
    qed
  qed
qed

lemma create_tag_member:
  assumes "create au vd d = (Inr r, d')" and "n \<in> set (pop_list (c_tags vd))"
  shows "settled au (recipe_id r) n (tags d') (recipe_tags d')
     \<and> (rows_named (tags d) au n \<noteq> [] \<longrightarrow> rows_named (tags d') au n = rows_named (tags d) au n)
     \<and> (rows_named (tags d) au n = [] \<longrightarrow>
          (\<exists>a. rows_named (tags d') au n = [a] \<and> attr_id a \<notin> attr_id ` set (tags d)))"
proof (cases rule: create_cases[of au vd d])
  case (tags_raise e d2)
  then show ?thesis using assms(1) by simp
next
  case (ingredients_raise d2 e d3)
  then show ?thesis using assms(1) by simp
next
  case (made d2 d3)
  have r: "r = objects_create vd (recipes d)" "d' = d3" using made(3) assms(1) by simp_all
  have "attach_all au (pop_list (c_tags vd)) (recipe_id r) (tags d) (recipe_tags d)
        = (None, tags d2, recipe_tags d2)"
    using tags_loop_result[OF made(1)] r by simp
  from attach_all_member[OF assms(2) this]
  show ?thesis using get_or_create_ingredients_frame[OF made(2)] r by simp
qed

lemma update_tag_member:
  assumes "update au inst vu d = (Inr r, d')" and "u_tags vu = Some names" and "n \<in> set names"
  shows "settled au (recipe_id inst) n (tags d') (recipe_tags d')
     \<and> (rows_named (tags d) au n \<noteq> [] \<longrightarrow> rows_named (tags d') au n = rows_named (tags d) au n)
     \<and> (rows_named (tags d) au n = [] \<longrightarrow>
          (\<exists>a. rows_named (tags d') au n = [a] \<and> attr_id a \<notin> attr_id ` set (tags d)))"
proof (cases rule: update_cases[of au inst vu d])
  case (tags_raise e d1)
  then show ?thesis using assms(1) by simp
next
  case (ingredients_raise d1 e d2)
  then show ?thesis using assms(1) by simp
next
  case (saved d1 d2)
  have d': "d' = d2\<lparr>recipes := save (set_attrs inst vu) (recipes d2)\<rparr>"
    using saved(3) assms(1) by simp
  have "get_or_create_tags au names inst
          (d\<lparr>recipe_tags := m2m_clear (recipe_tags d) (recipe_id inst)\<rparr>) = (None, d1)"
    using saved(1) assms(2) by (simp add: replace_tags_def)
  from tags_loop_result[OF this]
  have "attach_all au names (recipe_id inst) (tags d)
          (m2m_clear (recipe_tags d) (recipe_id inst)) = (None, tags d1, recipe_tags d1)"
    by simp
  from attach_all_member[OF assms(3) this]
  show ?thesis using replace_ingredients_frame[OF saved(2)] d' by simp
qed

lemma tags_loop_succeeds:
  assumes "names_unique (tags d)"
  shows "\<exists>d'. get_or_create_tags au ns r d = (None, d') \<and> names_unique (tags d')"
proof -
  obtain t' th' where "attach_all au ns (recipe_id r) (tags d) (recipe_tags d) = (None, t', th')"
    "names_unique t'"
    using attach_all_unique_succeeds[OF assms] by blast
  then show ?thesis by (simp add: get_or_create_tags_attach)
qed

lemma ingredients_loop_succeeds:
  assumes "names_unique (ingredients d)"
  shows "\<exists>d'. get_or_create_ingredients au ns r d = (None, d') \<and> names_unique (ingredients d')"
proof -
  obtain t' th' where
    "attach_all au ns (recipe_id r) (ingredients d) (recipe_ingredients d) = (None, t', th')"
    "names_unique t'"
    using attach_all_unique_succeeds[OF assms] by blast
  then show ?thesis by (simp add: get_or_create_ingredients_attach)
qed

lemma create_succeeds:
  assumes "names_unique (tags d)" and "names_unique (ingredients d)"
  shows "\<exists>r. fst (create au vd d) = Inr r"
proof (cases rule: create_cases[of au vd d])
  case (tags_raise e d2)
  then show ?thesis
    using tags_loop_succeeds[of "d\<lparr>recipes := recipes d @ [objects_create vd (recipes d)]\<rparr>"
        au "pop_list (c_tags vd)" "objects_create vd (recipes d)"] assms(1)
    by simp
next
  case (ingredients_raise d2 e d3)
  have "ingredients d2 = ingredients d"
    using get_or_create_tags_frame[OF ingredients_raise(1)] by simp
  then show ?thesis
    using ingredients_loop_succeeds[of d2 au "pop_list (c_ingredients vd)"
        "objects_create vd (recipes d)"] assms(2) ingredients_raise(2)
    by simp
next
  case (made d2 d3)
  then show ?thesis by simp
qed

lemma update_succeeds:
  assumes "names_unique (tags d)" and "names_unique (ingredients d)"
  shows "\<exists>r. fst (update au inst vu d) = Inr r"
proof (cases rule: update_cases[of au inst vu d])
  case (tags_raise e d1)
  show ?thesis
  proof (cases "u_tags vu")
    case None
    then show ?thesis using tags_raise by (simp add: replace_tags_def)
  next
    case (Some ns)
    then show ?thesis
      using tags_raise(1) assms(1)
        tags_loop_succeeds[of "d\<lparr>recipe_tags := m2m_clear (recipe_tags d) (recipe_id inst)\<rparr>"
          au ns inst]
      by (simp add: replace_tags_def)
  qed
next
  case (ingredients_raise d1 e d2)
  have i: "names_unique (ingredients d1)"
    using replace_tags_frame[OF ingredients_raise(1)] assms(2) by simp
  show ?thesis
  proof (cases "u_ingredients vu")
    case None
    then show ?thesis using ingredients_raise by (simp add: replace_ingredients_def)
  next
    case (Some ns)
    then show ?thesis
      using ingredients_raise(2) i
        ingredients_loop_succeeds[of
          "d1\<lparr>recipe_ingredients := m2m_clear (recipe_ingredients d1) (recipe_id inst)\<rparr>"
          au ns inst]
      by (simp add: replace_ingredients_def)
  qed
next
  case (saved d1 d2)
  then show ?thesis by simp
qed

lemma settled_reconciled:
  assumes "settled u rid n t' th'"
    and "rows_named t u n \<noteq> [] \<longrightarrow> rows_named t' u n = rows_named t u n"
    and "rows_named t u n = [] \<longrightarrow>
          (\<exists>a. rows_named t' u n = [a] \<and> attr_id a \<notin> attr_id ` set t)"
  shows "(rows_named t u n \<noteq> [] \<longrightarrow>
            rows_named t' u n = rows_named t u n
            \<and> (\<exists>a. rows_named t u n = [a] \<and> (rid, attr_id a) \<in> set th'))
       \<and> (rows_named t u n = [] \<longrightarrow>
            (\<exists>a. rows_named t' u n = [a] \<and> attr_id a \<notin> attr_id ` set t
                 \<and> (rid, attr_id a) \<in> set th'))"
proof -
  from assms(1) obtain a where a: "rows_named t' u n = [a]" "(rid, attr_id a) \<in> set th'"
    by (auto simp: settled_def split: list.splits)
  show ?thesis
  proof (cases "rows_named t u n = []")
    case True
    then show ?thesis using a assms(3) by auto
  next
    case False
    then show ?thesis using a assms(2) by auto
  qed
qed

text \<open>
  C3. Let the tag payload of a recipe create or update hold the name \<open>N\<close>, let the
  serializer run for the authenticated user \<open>au\<close>, and let the operation return the
  recipe. If \<open>au\<close> had a tag named \<open>N\<close> before, the rows of that name are afterwards
  the same as before (no new row), there was exactly one, and it is paired with the
  recipe. If \<open>au\<close> had none, there is afterwards exactly one row of that name, its key
  is new to the table, and it is paired with the recipe. Both operations do return the
  recipe whenever no user has two tags or two ingredients of one name.
\<close>

theorem tag_is_reused_or_created_once:
  assumes "N \<in> set names"
  shows "(c_tags vd = Some names \<and> create au vd d = (Inr r, d') \<longrightarrow>
            (rows_named (tags d) au N \<noteq> [] \<longrightarrow>
               rows_named (tags d') au N = rows_named (tags d) au N
               \<and> (\<exists>t. rows_named (tags d) au N = [t]
                      \<and> (recipe_id r, attr_id t) \<in> set (recipe_tags d')))
          \<and> (rows_named (tags d) au N = [] \<longrightarrow>
               (\<exists>t. rows_named (tags d') au N = [t] \<and> attr_id t \<notin> attr_id ` set (tags d)
                    \<and> (recipe_id r, attr_id t) \<in> set (recipe_tags d'))))
       \<and> (u_tags vu = Some names \<and> update au inst vu d = (Inr r', d'') \<longrightarrow>
            (rows_named (tags d) au N \<noteq> [] \<longrightarrow>
               rows_named (tags d'') au N = rows_named (tags d) au N
               \<and> (\<exists>t. rows_named (tags d) au N = [t]
                      \<and> (recipe_id inst, attr_id t) \<in> set (recipe_tags d'')))
          \<and> (rows_named (tags d) au N = [] \<longrightarrow>
               (\<exists>t. rows_named (tags d'') au N = [t] \<and> attr_id t \<notin> attr_id ` set (tags d)
                    \<and> (recipe_id inst, attr_id t) \<in> set (recipe_tags d''))))
       \<and> (names_unique (tags d) \<and> names_unique (ingredients d) \<longrightarrow>
            (\<exists>r. fst (create au vd d) = Inr r) \<and> (\<exists>r. fst (update au inst vu d) = Inr r))"
proof (intro conjI)
  show "names_unique (tags d) \<and> names_unique (ingredients d) \<longrightarrow>
            (\<exists>r. fst (create au vd d) = Inr r) \<and> (\<exists>r. fst (update au inst vu d) = Inr r)"
    using create_succeeds[of d au vd] update_succeeds[of d au inst vu] by blast
next
  show "c_tags vd = Some names \<and> create au vd d = (Inr r, d') \<longrightarrow>
            (rows_named (tags d) au N \<noteq> [] \<longrightarrow>
               rows_named (tags d') au N = rows_named (tags d) au N
               \<and> (\<exists>t. rows_named (tags d) au N = [t]
                      \<and> (recipe_id r, attr_id t) \<in> set (recipe_tags d')))
          \<and> (rows_named (tags d) au N = [] \<longrightarrow>
               (\<exists>t. rows_named (tags d') au N = [t] \<and> attr_id t \<notin> attr_id ` set (tags d)
                    \<and> (recipe_id r, attr_id t) \<in> set (recipe_tags d')))"
  proof (rule impI)
    assume c: "c_tags vd = Some names \<and> create au vd d = (Inr r, d')"
    then have "N \<in> set (pop_list (c_tags vd))" using assms by (simp add: pop_list_def)
    from create_tag_member[OF _ this, of au d r d'] c
    show "(rows_named (tags d) au N \<noteq> [] \<longrightarrow>
               rows_named (tags d') au N = rows_named (tags d) au N
               \<and> (\<exists>t. rows_named (tags d) au N = [t]
                      \<and> (recipe_id r, attr_id t) \<in> set (recipe_tags d')))
          \<and> (rows_named (tags d) au N = [] \<longrightarrow>
               (\<exists>t. rows_named (tags d') au N = [t] \<and> attr_id t \<notin> attr_id ` set (tags d)
                    \<and> (recipe_id r, attr_id t) \<in> set (recipe_tags d')))"
      by (intro settled_reconciled) blast+
  qed
next
  show "u_tags vu = Some names \<and> update au inst vu d = (Inr r', d'') \<longrightarrow>
            (rows_named (tags d) au N \<noteq> [] \<longrightarrow>
               rows_named (tags d'') au N = rows_named (tags d) au N
               \<and> (\<exists>t. rows_named (tags d) au N = [t]
                      \<and> (recipe_id inst, attr_id t) \<in> set (recipe_tags d'')))
          \<and> (rows_named (tags d) au N = [] \<longrightarrow>
               (\<exists>t. rows_named (tags d'') au N = [t] \<and> attr_id t \<notin> attr_id ` set (tags d)
                    \<and> (recipe_id inst, attr_id t) \<in> set (recipe_tags d'')))"
  proof (rule impI)
    assume c: "u_tags vu = Some names \<and> update au inst vu d = (Inr r', d'')"
    from update_tag_member[OF _ _ assms, of au inst vu d r' d''] c
    show "(rows_named (tags d) au N \<noteq> [] \<longrightarrow>
               rows_named (tags d'') au N = rows_named (tags d) au N
               \<and> (\<exists>t. rows_named (tags d) au N = [t]
                      \<and> (recipe_id inst, attr_id t) \<in> set (recipe_tags d'')))
          \<and> (rows_named (tags d) au N = [] \<longrightarrow>
               (\<exists>t. rows_named (tags d'') au N = [t] \<and> attr_id t \<notin> attr_id ` set (tags d)
                    \<and> (recipe_id inst, attr_id t) \<in> set (recipe_tags d'')))"
      by (intro settled_reconciled) blast+
  qed
qed

lemma names_unique_sample: "names_unique (tags sample_db)" "names_unique (ingredients sample_db)"
  by (simp_all add: names_unique_def sample_db_def vegan_def dinner_def vegan2_def salt_def)

lemma create_porridge: "create 1 porridge sample_db = (Inr porridge_row, sample_db_porridge)"
  by (simp add: create_def objects_create_def pop_list_def porridge_def porridge_row_def
      sample_db_porridge_def sample_db_def next_id_def get_or_create_def objects_get_def
      m2m_add_def Let_def curry_def tahini_def fish_def vegan_def dinner_def vegan2_def
      breakfast_def)

lemma update_retag: "update 1 curry retag sample_db = (Inr curry, sample_db_retagged)"
  by (simp add: update_def replace_tags_def replace_ingredients_def retag_def no_change_def
      sample_db_retagged_def sample_db_def next_id_def get_or_create_def objects_get_def
      m2m_add_def m2m_clear_def set_attrs_def save_def Let_def curry_def tahini_def fish_def
      vegan_def dinner_def vegan2_def lunch_def)


theorem tag_is_reused_or_created_once_witness:
  "''Dinner'' \<in> set [''Dinner'', ''Breakfast'']
   \<and> c_tags porridge = Some [''Dinner'', ''Breakfast'']
   \<and> create 1 porridge sample_db = (Inr porridge_row, sample_db_porridge)
   \<and> rows_named (tags sample_db) 1 ''Dinner'' = [dinner]
   \<and> rows_named (tags sample_db_porridge) 1 ''Dinner'' = [dinner]
   \<and> (recipe_id porridge_row, attr_id dinner) \<in> set (recipe_tags sample_db_porridge)
   \<and> ''Lunch'' \<in> set [''Lunch'']
   \<and> u_tags retag = Some [''Lunch'']
   \<and> update 1 curry retag sample_db = (Inr curry, sample_db_retagged)
   \<and> rows_named (tags sample_db) 1 ''Lunch'' = []
   \<and> (\<exists>t. rows_named (tags sample_db_retagged) 1 ''Lunch'' = [t]
          \<and> (recipe_id curry, attr_id t) \<in> set (recipe_tags sample_db_retagged))
   \<and> names_unique (tags sample_db) \<and> names_unique (ingredients sample_db)"
proof -
  have 1: "''Dinner'' \<in> set [''Dinner'', ''Breakfast'']" and 2: "''Lunch'' \<in> set [''Lunch'']"
    by simp_all
  have 3: "rows_named (tags sample_db) 1 ''Dinner'' = [dinner]"
    "rows_named (tags sample_db) 1 ''Lunch'' = []"
    by (simp_all add: rows_named_def sample_db_def vegan_def dinner_def vegan2_def)
  have 4: "c_tags porridge = Some [''Dinner'', ''Breakfast'']" "u_tags retag = Some [''Lunch'']"
    by (simp_all add: porridge_def retag_def no_change_def)
  have 5: "rows_named (tags sample_db_porridge) 1 ''Dinner'' = [dinner]
     \<and> (recipe_id porridge_row, attr_id dinner) \<in> set (recipe_tags sample_db_porridge)"
    using tag_is_reused_or_created_once[OF 1, THEN conjunct1, of porridge 1 sample_db
        porridge_row sample_db_porridge] 3(1) 4(1) create_porridge
    by simp
  have 6: "\<exists>t. rows_named (tags sample_db_retagged) 1 ''Lunch'' = [t]
          \<and> (recipe_id curry, attr_id t) \<in> set (recipe_tags sample_db_retagged)"
    using tag_is_reused_or_created_once[OF 2, THEN conjunct2, THEN conjunct1,
        of retag 1 curry sample_db curry sample_db_retagged] 3(2) 4(2) update_retag
    by auto
  show ?thesis using 1 2 3 4 5 6 create_porridge update_retag names_unique_sample by simp
qed

lemma get_or_create_tags_dedup:
  "get_or_create_tags au (dedup ns) r d = get_or_create_tags au ns r d"
  by (simp add: get_or_create_tags_attach attach_all_dedup)

lemma get_or_create_ingredients_dedup:
  "get_or_create_ingredients au (dedup ns) r d = get_or_create_ingredients au ns r d"
  by (simp add: get_or_create_ingredients_attach attach_all_dedup)

lemma pop_list_dedup: "pop_list (map_option dedup given) = dedup (pop_list given)"
  by (cases given) (simp_all add: pop_list_def)

lemma create_dedup:
  "create au (vd\<lparr>c_tags := map_option dedup (c_tags vd),
                 c_ingredients := map_option dedup (c_ingredients vd)\<rparr>) d
   = create au vd d"
  by (simp add: create_def objects_create_def pop_list_dedup get_or_create_tags_dedup
      get_or_create_ingredients_dedup Let_def split: prod.splits option.splits)

lemma replace_tags_dedup:
  "replace_tags au inst (map_option dedup given) d = replace_tags au inst given d"
  by (cases given) (simp_all add: replace_tags_def get_or_create_tags_dedup)

lemma replace_ingredients_dedup:
  "replace_ingredients au inst (map_option dedup given) d = replace_ingredients au inst given d"
  by (cases given) (simp_all add: replace_ingredients_def get_or_create_ingredients_dedup)

lemma update_dedup:
  "update au inst (vu\<lparr>u_tags := map_option dedup (u_tags vu),
                      u_ingredients := map_option dedup (u_ingredients vu)\<rparr>) d
   = update au inst vu d"
  by (simp add: update_def replace_tags_dedup replace_ingredients_dedup set_attrs_def Let_def
      split: prod.splits option.splits)

lemma dedup_set_distinct: "set (dedup xs) = set xs \<and> distinct (dedup xs)"
  by (induction xs rule: dedup.induct) auto

text \<open>
  C5. \<open>dedup\<close> keeps the first occurrence of every name and drops the later ones. A
  create, and an update, run on a tag and ingredient payload gives the same result and
  the same database as the run on the payload with duplicates removed; so a repeated
  name adds no row, no pair and no exception of its own. If no user has two tags or two
  ingredients of one name, neither operation raises at all.
\<close>

theorem duplicate_names_collapse:
  "create au vd d
   = create au (vd\<lparr>c_tags := map_option dedup (c_tags vd),
                    c_ingredients := map_option dedup (c_ingredients vd)\<rparr>) d
 \<and> update au inst vu d
   = update au inst (vu\<lparr>u_tags := map_option dedup (u_tags vu),
                         u_ingredients := map_option dedup (u_ingredients vu)\<rparr>) d
 \<and> (names_unique (tags d) \<and> names_unique (ingredients d) \<longrightarrow>
      (\<exists>r. fst (create au vd d) = Inr r) \<and> (\<exists>r. fst (update au inst vu d) = Inr r))
 \<and> set (dedup xs) = set xs \<and> distinct (dedup xs)"
  using create_dedup[of au vd d] update_dedup[of au inst vu d]
    create_succeeds[of d au vd] update_succeeds[of d au inst vu] dedup_set_distinct[of xs]
  by simp

theorem duplicate_names_collapse_witness:
  "names_unique (tags sample_db) \<and> names_unique (ingredients sample_db)
   \<and> c_tags porridge_twice = Some [''Dinner'', ''Breakfast'', ''Dinner'']
   \<and> create 1 porridge_twice sample_db = (Inr porridge_row, sample_db_porridge)
   \<and> create 1 porridge sample_db = (Inr porridge_row, sample_db_porridge)"
proof -
  have "porridge_twice\<lparr>c_tags := map_option dedup (c_tags porridge_twice),
                        c_ingredients := map_option dedup (c_ingredients porridge_twice)\<rparr>
        = porridge"
    by (simp add: porridge_twice_def porridge_def)
  then show ?thesis
    using duplicate_names_collapse[of 1 porridge_twice sample_db curry no_change "[]"]
      names_unique_sample create_porridge
    by (simp add: porridge_twice_def porridge_def)
qed

section \<open>Ownership of associated tags and ingredients\<close>

lemma get_or_create_member:
  assumes "get_or_create table u n = Inr (a, c, table')"
  shows "a \<in> set table'" and "set table \<subseteq> set table'"
    and "set table' \<subseteq> insert a (set table)"
    and "a \<notin> set table \<longrightarrow> attr_id a \<notin> attr_id ` set table"
    and "distinct (map attr_id table) \<longrightarrow> distinct (map attr_id table')"
proof -
  have r: "rows_named table' u n = [a]" by (rule get_or_create_Inr(3)[OF assms])
  have "a \<in> set (rows_named table' u n)" unfolding r by simp
  then show "a \<in> set table'" by (simp add: rows_named_member)
  note k = get_or_create_Inr(4)[OF assms]
  show "set table \<subseteq> set table'" using k by auto
  show "set table' \<subseteq> insert a (set table)" using k by auto
  show "a \<notin> set table \<longrightarrow> attr_id a \<notin> attr_id ` set table"
  proof
    assume n: "a \<notin> set table"
    have "rows_named table u n \<noteq> [a]"
    proof
      assume "rows_named table u n = [a]"
      then have "a \<in> set (rows_named table u n)" by simp
      then show False using n by (simp add: rows_named_member)
    qed
    then show "attr_id a \<notin> attr_id ` set table" using k by blast
  qed
  show "distinct (map attr_id table) \<longrightarrow> distinct (map attr_id table')"
    using k by auto
qed

lemma attach_all_invariants:
  "attach_all u ns rid t th = (res, t', th') \<Longrightarrow>
     set t \<subseteq> set t'
   \<and> (\<forall>a \<in> set t' - set t. attr_user a = u \<and> attr_id a \<notin> attr_id ` set t)
   \<and> (distinct (map attr_id t) \<longrightarrow> distinct (map attr_id t'))
   \<and> set th \<subseteq> set th'
   \<and> (\<forall>p \<in> set th' - set th.
         fst p = rid \<and> (\<exists>a \<in> set t'. attr_id a = snd p \<and> attr_user a = u))"
proof (induction ns arbitrary: t th)
  case Nil
  then show ?case by simp
next
  case (Cons m ms)
  show ?case
  proof (cases "get_or_create t u m")
    case (Inl e)
    then show ?thesis using Cons.prems by simp
  next
    case (Inr x)
    obtain b c t1 where x: "x = (b, c, t1)" by (cases x) auto
    have g: "get_or_create t u m = Inr (b, c, t1)" using Inr x by simp
    let ?th1 = "m2m_add th rid (attr_id b)"
    have rest: "attach_all u ms rid t1 ?th1 = (res, t', th')"
      using Cons.prems g by simp
    note ih = Cons.IH[OF rest]
    have i1: "set t1 \<subseteq> set t'" using ih by (elim conjE)
    have i2: "\<forall>a \<in> set t' - set t1. attr_user a = u \<and> attr_id a \<notin> attr_id ` set t1"
      using ih by (elim conjE)
    have i3: "distinct (map attr_id t1) \<longrightarrow> distinct (map attr_id t')"
      using ih by (elim conjE)
    have i4: "set ?th1 \<subseteq> set th'" using ih by (elim conjE)
    have i5: "\<forall>p \<in> set th' - set ?th1.
         fst p = rid \<and> (\<exists>a \<in> set t'. attr_id a = snd p \<and> attr_user a = u)"
      using ih by (elim conjE)
    note m = get_or_create_member[OF g]
    have ub: "attr_user b = u" by (rule get_or_create_Inr(1)[OF g])
    have c1: "set t \<subseteq> set t'" using m(2) i1 by blast
    have c2: "\<forall>a \<in> set t' - set t. attr_user a = u \<and> attr_id a \<notin> attr_id ` set t"
    proof
      fix a assume a: "a \<in> set t' - set t"
      show "attr_user a = u \<and> attr_id a \<notin> attr_id ` set t"
      proof (cases "a \<in> set t1")
        case True
        then have "a = b" using m(3) a by blast
        then show ?thesis using ub m(4) a by blast
      next
        case False
        then have "attr_user a = u" "attr_id a \<notin> attr_id ` set t1" using i2 a by blast+
        then show ?thesis using m(2) by blast
      qed
    qed
    have c3: "distinct (map attr_id t) \<longrightarrow> distinct (map attr_id t')"
      using m(5) i3 by blast
    have c4: "set th \<subseteq> set th'" using i4 by (auto simp: set_m2m_add)
    have c5: "\<forall>p \<in> set th' - set th.
         fst p = rid \<and> (\<exists>a \<in> set t'. attr_id a = snd p \<and> attr_user a = u)"
    proof
      fix p assume p: "p \<in> set th' - set th"
      show "fst p = rid \<and> (\<exists>a \<in> set t'. attr_id a = snd p \<and> attr_user a = u)"
      proof (cases "p \<in> set ?th1")
        case True
        then have "p = (rid, attr_id b)" using p by (auto simp: set_m2m_add)
        moreover have "b \<in> set t'" using m(1) i1 by blast
        ultimately show ?thesis using ub by auto
      next
        case False
        then show ?thesis using i5 p by blast
      qed
    qed
    show ?thesis using c1 c2 c3 c4 c5 by (intro conjI)
  qed
qed

lemma attach_all_same_owner:
  assumes loop: "attach_all u ns rid t th = (res, t', th')"
    and pk: "distinct (map attr_id t)"
    and fk: "snd ` set th \<subseteq> attr_id ` set t"
    and own: "same_owner rs t th"
    and target: "\<forall>r \<in> set rs. recipe_id r = rid \<longrightarrow> recipe_user r = u"
  shows "same_owner rs t' th'" and "distinct (map attr_id t')"
    and "snd ` set th' \<subseteq> attr_id ` set t'" and "fst ` set th' \<subseteq> insert rid (fst ` set th)"
proof -
  note inv = attach_all_invariants[OF loop]
  have i1: "set t \<subseteq> set t'" using inv by (elim conjE)
  have i2: "\<forall>a \<in> set t' - set t. attr_user a = u \<and> attr_id a \<notin> attr_id ` set t"
    using inv by (elim conjE)
  have i3: "distinct (map attr_id t')" using inv pk by blast
  have i4: "set th \<subseteq> set th'" using inv by (elim conjE)
  have i5: "\<forall>p \<in> set th' - set th.
         fst p = rid \<and> (\<exists>a \<in> set t'. attr_id a = snd p \<and> attr_user a = u)"
    using inv by (elim conjE)
  have inj: "a \<in> set t' \<Longrightarrow> b \<in> set t' \<Longrightarrow> attr_id a = attr_id b \<Longrightarrow> a = b" for a b
    using i3 by (meson distinct_map inj_onD)
  show "distinct (map attr_id t')" by (rule i3)
  show "same_owner rs t' th'"
    unfolding same_owner_def
  proof (intro ballI impI)
    fix r a assume r: "r \<in> set rs" and a: "a \<in> set t'"
      and p: "(recipe_id r, attr_id a) \<in> set th'"
    show "attr_user a = recipe_user r"
    proof (cases "(recipe_id r, attr_id a) \<in> set th")
      case True
      then have "attr_id a \<in> attr_id ` set t" using fk by force
      then obtain a0 where a0: "a0 \<in> set t" "attr_id a0 = attr_id a" by auto
      then have "a0 = a" using inj[of a0 a] a i1 by blast
      then show ?thesis using own r a0(1) True by (auto simp: same_owner_def)
    next
      case False
      then have "(recipe_id r, attr_id a) \<in> set th' - set th" using p by simp
      from i5[rule_format, OF this]
      have "recipe_id r = rid \<and> (\<exists>a1 \<in> set t'. attr_id a1 = attr_id a \<and> attr_user a1 = u)"
        by simp
      then have "recipe_id r = rid"
        and "\<exists>a1 \<in> set t'. attr_id a1 = attr_id a \<and> attr_user a1 = u"
        by (rule conjunct1, rule conjunct2)
      then obtain a1 where a1: "a1 \<in> set t'" "attr_id a1 = attr_id a" "attr_user a1 = u"
        by blast
      then have "a1 = a" using inj[of a1 a] a by blast
      then show ?thesis using a1(3) target r \<open>recipe_id r = rid\<close> by simp
    qed
  qed
  show "snd ` set th' \<subseteq> attr_id ` set t'"
  proof
    fix x assume "x \<in> snd ` set th'"
    then obtain p where p: "p \<in> set th'" "x = snd p" by auto
    show "x \<in> attr_id ` set t'"
    proof (cases "p \<in> set th")
      case True
      then have "x \<in> attr_id ` set t" using fk p(2) by auto
      then show ?thesis using i1 by auto
    next
      case False
      then show ?thesis using i5 p by force
    qed
  qed
  show "fst ` set th' \<subseteq> insert rid (fst ` set th)"
  proof
    fix x assume "x \<in> fst ` set th'"
    then obtain p where p: "p \<in> set th'" "x = fst p" by auto
    show "x \<in> insert rid (fst ` set th)"
    proof (cases "p \<in> set th")
      case True
      then show ?thesis using p(2) by auto
    next
      case False
      then show ?thesis using i5 p by force
    qed
  qed
qed

lemma target_rows:
  assumes "distinct (map recipe_id rs)" and "r \<in> set rs"
  shows "\<forall>x \<in> set rs. recipe_id x = recipe_id r \<longrightarrow> recipe_user x = recipe_user r"
  using assms by (metis distinct_map inj_onD)

lemma tags_loop_inv:
  assumes loop: "get_or_create_tags u ns r d = (res, d')"
    and "pk_ok d" and "fk_ok d" and "owner_inv d"
    and r: "r \<in> set (recipes d)" "recipe_user r = u"
  shows "pk_ok d' \<and> fk_ok d' \<and> owner_inv d'"
proof -
  note f = get_or_create_tags_frame[OF loop]
  have a: "attach_all u ns (recipe_id r) (tags d) (recipe_tags d) = (res, tags d', recipe_tags d')"
    by (rule tags_loop_result[OF loop])
  have t: "\<forall>x \<in> set (recipes d). recipe_id x = recipe_id r \<longrightarrow> recipe_user x = u"
    using target_rows[of "recipes d" r] assms by (simp add: pk_ok_def)
  note k = attach_all_same_owner[OF a _ _ _ t]
  have 1: "same_owner (recipes d) (tags d') (recipe_tags d')"
    using k(1) assms by (simp add: pk_ok_def fk_ok_def owner_inv_def)
  have 2: "distinct (map attr_id (tags d'))"
    using k(2) assms by (simp add: pk_ok_def fk_ok_def owner_inv_def)
  have 3: "snd ` set (recipe_tags d') \<subseteq> attr_id ` set (tags d')"
    using k(3) assms by (simp add: pk_ok_def fk_ok_def owner_inv_def)
  have 4: "fst ` set (recipe_tags d') \<subseteq> insert (recipe_id r) (fst ` set (recipe_tags d))"
    using k(4) assms by (simp add: pk_ok_def fk_ok_def owner_inv_def)
  have 5: "fst ` set (recipe_tags d') \<subseteq> recipe_id ` set (recipes d)"
  proof -
    have "recipe_id r \<in> recipe_id ` set (recipes d)" using r(1) by simp
    moreover have "fst ` set (recipe_tags d) \<subseteq> recipe_id ` set (recipes d)"
      using \<open>fk_ok d\<close> by (simp add: fk_ok_def)
    ultimately have "insert (recipe_id r) (fst ` set (recipe_tags d))
                     \<subseteq> recipe_id ` set (recipes d)"
      by simp
    with 4 show ?thesis by (rule subset_trans)
  qed
  show ?thesis
    using 1 2 3 5 f assms(2,3,4) by (simp add: pk_ok_def fk_ok_def owner_inv_def)
qed

lemma ingredients_loop_inv:
  assumes loop: "get_or_create_ingredients u ns r d = (res, d')"
    and "pk_ok d" and "fk_ok d" and "owner_inv d"
    and r: "r \<in> set (recipes d)" "recipe_user r = u"
  shows "pk_ok d' \<and> fk_ok d' \<and> owner_inv d'"
proof -
  note f = get_or_create_ingredients_frame[OF loop]
  have a: "attach_all u ns (recipe_id r) (ingredients d) (recipe_ingredients d)
           = (res, ingredients d', recipe_ingredients d')"
    by (rule ingredients_loop_result[OF loop])
  have t: "\<forall>x \<in> set (recipes d). recipe_id x = recipe_id r \<longrightarrow> recipe_user x = u"
    using target_rows[of "recipes d" r] assms by (simp add: pk_ok_def)
  note k = attach_all_same_owner[OF a _ _ _ t]
  have 1: "same_owner (recipes d) (ingredients d') (recipe_ingredients d')"
    using k(1) assms by (simp add: pk_ok_def fk_ok_def owner_inv_def)
  have 2: "distinct (map attr_id (ingredients d'))"
    using k(2) assms by (simp add: pk_ok_def fk_ok_def owner_inv_def)
  have 3: "snd ` set (recipe_ingredients d') \<subseteq> attr_id ` set (ingredients d')"
    using k(3) assms by (simp add: pk_ok_def fk_ok_def owner_inv_def)
  have 4: "fst ` set (recipe_ingredients d')
           \<subseteq> insert (recipe_id r) (fst ` set (recipe_ingredients d))"
    using k(4) assms by (simp add: pk_ok_def fk_ok_def owner_inv_def)
  have 5: "fst ` set (recipe_ingredients d') \<subseteq> recipe_id ` set (recipes d)"
  proof -
    have "recipe_id r \<in> recipe_id ` set (recipes d)" using r(1) by simp
    moreover have "fst ` set (recipe_ingredients d) \<subseteq> recipe_id ` set (recipes d)"
      using \<open>fk_ok d\<close> by (simp add: fk_ok_def)
    ultimately have "insert (recipe_id r) (fst ` set (recipe_ingredients d))
                     \<subseteq> recipe_id ` set (recipes d)"
      by simp
    with 4 show ?thesis by (rule subset_trans)
  qed
  show ?thesis
    using 1 2 3 5 f assms(2,3,4) by (simp add: pk_ok_def fk_ok_def owner_inv_def)
qed

lemma image_subset_mono: "A \<subseteq> B \<Longrightarrow> f ` B \<subseteq> S \<Longrightarrow> f ` A \<subseteq> S"
  by blast

lemma same_owner_subset:
  "same_owner rs as th \<Longrightarrow> set th' \<subseteq> set th \<Longrightarrow> same_owner rs as th'"
  unfolding same_owner_def by blast

lemma clear_tags_inv:
  assumes "pk_ok d" and "fk_ok d" and "owner_inv d"
  shows "pk_ok (d\<lparr>recipe_tags := m2m_clear (recipe_tags d) rid\<rparr>)
       \<and> fk_ok (d\<lparr>recipe_tags := m2m_clear (recipe_tags d) rid\<rparr>)
       \<and> owner_inv (d\<lparr>recipe_tags := m2m_clear (recipe_tags d) rid\<rparr>)"
proof -
  have s: "set (m2m_clear (recipe_tags d) rid) \<subseteq> set (recipe_tags d)"
    by (auto simp: m2m_clear_def)
  have "same_owner (recipes d) (tags d) (m2m_clear (recipe_tags d) rid)"
    using assms(3) s by (auto simp: owner_inv_def intro: same_owner_subset)
  moreover have "fst ` set (m2m_clear (recipe_tags d) rid) \<subseteq> recipe_id ` set (recipes d)"
    "snd ` set (m2m_clear (recipe_tags d) rid) \<subseteq> attr_id ` set (tags d)"
  proof -
    have fk: "fst ` set (recipe_tags d) \<subseteq> recipe_id ` set (recipes d)"
      "snd ` set (recipe_tags d) \<subseteq> attr_id ` set (tags d)"
      using assms(2) by (simp_all add: fk_ok_def)
    show "fst ` set (m2m_clear (recipe_tags d) rid) \<subseteq> recipe_id ` set (recipes d)"
      by (rule image_subset_mono[OF s fk(1)])
    show "snd ` set (m2m_clear (recipe_tags d) rid) \<subseteq> attr_id ` set (tags d)"
      by (rule image_subset_mono[OF s fk(2)])
  qed
  ultimately show ?thesis using assms by (simp add: pk_ok_def fk_ok_def owner_inv_def)
qed

lemma clear_ingredients_inv:
  assumes "pk_ok d" and "fk_ok d" and "owner_inv d"
  shows "pk_ok (d\<lparr>recipe_ingredients := m2m_clear (recipe_ingredients d) rid\<rparr>)
       \<and> fk_ok (d\<lparr>recipe_ingredients := m2m_clear (recipe_ingredients d) rid\<rparr>)
       \<and> owner_inv (d\<lparr>recipe_ingredients := m2m_clear (recipe_ingredients d) rid\<rparr>)"
proof -
  have s: "set (m2m_clear (recipe_ingredients d) rid) \<subseteq> set (recipe_ingredients d)"
    by (auto simp: m2m_clear_def)
  have "same_owner (recipes d) (ingredients d) (m2m_clear (recipe_ingredients d) rid)"
    using assms(3) s by (auto simp: owner_inv_def intro: same_owner_subset)
  moreover have
    "fst ` set (m2m_clear (recipe_ingredients d) rid) \<subseteq> recipe_id ` set (recipes d)"
    "snd ` set (m2m_clear (recipe_ingredients d) rid) \<subseteq> attr_id ` set (ingredients d)"
  proof -
    have fk: "fst ` set (recipe_ingredients d) \<subseteq> recipe_id ` set (recipes d)"
      "snd ` set (recipe_ingredients d) \<subseteq> attr_id ` set (ingredients d)"
      using assms(2) by (simp_all add: fk_ok_def)
    show "fst ` set (m2m_clear (recipe_ingredients d) rid) \<subseteq> recipe_id ` set (recipes d)"
      by (rule image_subset_mono[OF s fk(1)])
    show "snd ` set (m2m_clear (recipe_ingredients d) rid) \<subseteq> attr_id ` set (ingredients d)"
      by (rule image_subset_mono[OF s fk(2)])
  qed
  ultimately show ?thesis using assms by (simp add: pk_ok_def fk_ok_def owner_inv_def)
qed

lemma same_owner_new_recipe:
  assumes "same_owner rs as th" and "recipe_id r \<notin> fst ` set th"
  shows "same_owner (rs @ [r]) as th"
  using assms unfolding same_owner_def by force

lemma new_recipe_inv:
  assumes "pk_ok d" and "fk_ok d" and "owner_inv d"
  shows "pk_ok (d\<lparr>recipes := recipes d @ [objects_create vd (recipes d)]\<rparr>)
       \<and> fk_ok (d\<lparr>recipes := recipes d @ [objects_create vd (recipes d)]\<rparr>)
       \<and> owner_inv (d\<lparr>recipes := recipes d @ [objects_create vd (recipes d)]\<rparr>)"
proof -
  let ?r = "objects_create vd (recipes d)"
  have fresh: "recipe_id ?r \<notin> recipe_id ` set (recipes d)"
    using next_id_fresh[of "map recipe_id (recipes d)"] by (simp add: objects_create_def)
  then have "recipe_id ?r \<notin> fst ` set (recipe_tags d)"
    "recipe_id ?r \<notin> fst ` set (recipe_ingredients d)"
    using assms(2) by (auto simp: fk_ok_def)
  then have "same_owner (recipes d @ [?r]) (tags d) (recipe_tags d)"
    "same_owner (recipes d @ [?r]) (ingredients d) (recipe_ingredients d)"
    using assms(3) by (auto simp: owner_inv_def intro: same_owner_new_recipe)
  moreover have "distinct (map recipe_id (recipes d @ [?r]))"
    using fresh assms(1) by (simp add: pk_ok_def)
  moreover have "fst ` set (recipe_tags d) \<subseteq> recipe_id ` set (recipes d @ [?r])"
    "fst ` set (recipe_ingredients d) \<subseteq> recipe_id ` set (recipes d @ [?r])"
    using assms(2) by (auto simp: fk_ok_def)
  ultimately show ?thesis using assms by (simp add: pk_ok_def fk_ok_def owner_inv_def)
qed

lemma save_keeps_keys:
  assumes "r \<in> set table" and "recipe_id r' = recipe_id r" and "recipe_user r' = recipe_user r"
    and "distinct (map recipe_id table)"
  shows "map recipe_id (save r' table) = map recipe_id table"
    and "\<forall>x \<in> set (save r' table). \<exists>y \<in> set table.
           recipe_id x = recipe_id y \<and> recipe_user x = recipe_user y"
proof -
  have s: "save r' table = map (\<lambda>x. if x = r then r' else x) table"
    by (rule save_existing[OF assms(4,1,2)])
  show "map recipe_id (save r' table) = map recipe_id table"
    unfolding s using assms(2) by (induction table) auto
  show "\<forall>x \<in> set (save r' table). \<exists>y \<in> set table.
           recipe_id x = recipe_id y \<and> recipe_user x = recipe_user y"
    unfolding s using assms(1,2,3) by auto
qed

lemma same_owner_keys:
  assumes "same_owner rs as th"
    and "\<forall>x \<in> set rs'. \<exists>y \<in> set rs. recipe_id x = recipe_id y \<and> recipe_user x = recipe_user y"
  shows "same_owner rs' as th"
  unfolding same_owner_def
proof (intro ballI impI)
  fix r a assume r: "r \<in> set rs'" and a: "a \<in> set as" and p: "(recipe_id r, attr_id a) \<in> set th"
  obtain y where "y \<in> set rs" "recipe_id r = recipe_id y" "recipe_user r = recipe_user y"
    using assms(2) r by blast
  then show "attr_user a = recipe_user r"
    using assms(1) a p by (simp add: same_owner_def)
qed

lemma save_inv:
  assumes "pk_ok d" and "fk_ok d" and "owner_inv d"
    and "r \<in> set (recipes d)" and "recipe_id r' = recipe_id r" and "recipe_user r' = recipe_user r"
  shows "pk_ok (d\<lparr>recipes := save r' (recipes d)\<rparr>)
       \<and> fk_ok (d\<lparr>recipes := save r' (recipes d)\<rparr>)
       \<and> owner_inv (d\<lparr>recipes := save r' (recipes d)\<rparr>)"
proof -
  have pk: "distinct (map recipe_id (recipes d))" using assms(1) by (simp add: pk_ok_def)
  note k = save_keeps_keys[OF assms(4,5,6) pk]
  have ids: "recipe_id ` set (save r' (recipes d)) = recipe_id ` set (recipes d)"
    using k(1) by (metis set_map)
  have "same_owner (save r' (recipes d)) (tags d) (recipe_tags d)"
    "same_owner (save r' (recipes d)) (ingredients d) (recipe_ingredients d)"
    using assms(3) k(2) by (auto simp: owner_inv_def intro: same_owner_keys)
  then show ?thesis
    using assms(1,2) k(1) ids by (simp add: pk_ok_def fk_ok_def owner_inv_def)
qed

lemma create_inv:
  assumes "pk_ok d" and "fk_ok d" and "owner_inv d" and "c_user vd = au"
  shows "pk_ok (snd (create au vd d)) \<and> fk_ok (snd (create au vd d))
       \<and> owner_inv (snd (create au vd d))"
proof -
  let ?r = "objects_create vd (recipes d)"
  let ?d1 = "d\<lparr>recipes := recipes d @ [?r]\<rparr>"
  have d1: "pk_ok ?d1 \<and> fk_ok ?d1 \<and> owner_inv ?d1"
    by (rule new_recipe_inv[OF assms(1,2,3)])
  have r: "?r \<in> set (recipes ?d1)" "recipe_user ?r = au"
    using assms(4) by (simp_all add: objects_create_def)
  show ?thesis
  proof (cases rule: create_cases[of au vd d])
    case (tags_raise e d2)
    then show ?thesis using tags_loop_inv[OF tags_raise(1) _ _ _ r] d1 by simp
  next
    case (ingredients_raise d2 e d3)
    have d2: "pk_ok d2 \<and> fk_ok d2 \<and> owner_inv d2"
      using tags_loop_inv[OF ingredients_raise(1) _ _ _ r] d1 by simp
    have "?r \<in> set (recipes d2)"
      using get_or_create_tags_frame[OF ingredients_raise(1)] by simp
    then show ?thesis
      using ingredients_loop_inv[OF ingredients_raise(2) _ _ _ _ r(2)] d2 ingredients_raise(3)
      by simp
  next
    case (made d2 d3)
    have d2: "pk_ok d2 \<and> fk_ok d2 \<and> owner_inv d2"
      using tags_loop_inv[OF made(1) _ _ _ r] d1 by simp
    have "?r \<in> set (recipes d2)"
      using get_or_create_tags_frame[OF made(1)] by simp
    then show ?thesis
      using ingredients_loop_inv[OF made(2) _ _ _ _ r(2)] d2 made(3) by simp
  qed
qed

lemma replace_tags_inv:
  assumes "replace_tags au inst given d = (res, d')"
    and "pk_ok d" and "fk_ok d" and "owner_inv d"
    and "inst \<in> set (recipes d)" and "recipe_user inst = au"
  shows "pk_ok d' \<and> fk_ok d' \<and> owner_inv d'"
proof (cases given)
  case None
  then show ?thesis using assms by (simp add: replace_tags_def)
next
  case (Some ns)
  let ?d0 = "d\<lparr>recipe_tags := m2m_clear (recipe_tags d) (recipe_id inst)\<rparr>"
  have l: "get_or_create_tags au ns inst ?d0 = (res, d')"
    using assms(1) Some by (simp add: replace_tags_def)
  have "pk_ok ?d0 \<and> fk_ok ?d0 \<and> owner_inv ?d0" by (rule clear_tags_inv[OF assms(2,3,4)])
  moreover have "inst \<in> set (recipes ?d0)" using assms(5) by simp
  ultimately show ?thesis using tags_loop_inv[OF l _ _ _ _ assms(6)] by blast
qed

lemma replace_ingredients_inv:
  assumes "replace_ingredients au inst given d = (res, d')"
    and "pk_ok d" and "fk_ok d" and "owner_inv d"
    and "inst \<in> set (recipes d)" and "recipe_user inst = au"
  shows "pk_ok d' \<and> fk_ok d' \<and> owner_inv d'"
proof (cases given)
  case None
  then show ?thesis using assms by (simp add: replace_ingredients_def)
next
  case (Some ns)
  let ?d0 = "d\<lparr>recipe_ingredients := m2m_clear (recipe_ingredients d) (recipe_id inst)\<rparr>"
  have l: "get_or_create_ingredients au ns inst ?d0 = (res, d')"
    using assms(1) Some by (simp add: replace_ingredients_def)
  have "pk_ok ?d0 \<and> fk_ok ?d0 \<and> owner_inv ?d0"
    by (rule clear_ingredients_inv[OF assms(2,3,4)])
  moreover have "inst \<in> set (recipes ?d0)" using assms(5) by simp
  ultimately show ?thesis using ingredients_loop_inv[OF l _ _ _ _ assms(6)] by blast
qed

lemma set_attrs_keys:
  "recipe_id (set_attrs inst vu) = recipe_id inst"
  "recipe_user (set_attrs inst vu) = recipe_user inst"
  by (simp_all add: set_attrs_def)

lemma update_inv:
  assumes "pk_ok d" and "fk_ok d" and "owner_inv d"
    and "inst \<in> set (recipes d)" and "recipe_user inst = au"
  shows "pk_ok (snd (update au inst vu d)) \<and> fk_ok (snd (update au inst vu d))
       \<and> owner_inv (snd (update au inst vu d))"
proof (cases rule: update_cases[of au inst vu d])
  case (tags_raise e d1)
  then show ?thesis using replace_tags_inv[OF tags_raise(1) assms] by simp
next
  case (ingredients_raise d1 e d2)
  have d1: "pk_ok d1 \<and> fk_ok d1 \<and> owner_inv d1"
    by (rule replace_tags_inv[OF ingredients_raise(1) assms])
  have "inst \<in> set (recipes d1)"
    using replace_tags_frame[OF ingredients_raise(1)] assms(4) by simp
  then show ?thesis
    using replace_ingredients_inv[OF ingredients_raise(2) _ _ _ _ assms(5)] d1
      ingredients_raise(3) by simp
next
  case (saved d1 d2)
  have d1: "pk_ok d1 \<and> fk_ok d1 \<and> owner_inv d1"
    by (rule replace_tags_inv[OF saved(1) assms])
  have i1: "inst \<in> set (recipes d1)"
    using replace_tags_frame[OF saved(1)] assms(4) by simp
  have d2: "pk_ok d2 \<and> fk_ok d2 \<and> owner_inv d2"
    using replace_ingredients_inv[OF saved(2) _ _ _ i1 assms(5)] d1 by simp
  have i2: "inst \<in> set (recipes d2)"
    using replace_ingredients_frame[OF saved(2)] i1 by simp
  have "pk_ok (d2\<lparr>recipes := save (set_attrs inst vu) (recipes d2)\<rparr>)
       \<and> fk_ok (d2\<lparr>recipes := save (set_attrs inst vu) (recipes d2)\<rparr>)
       \<and> owner_inv (d2\<lparr>recipes := save (set_attrs inst vu) (recipes d2)\<rparr>)"
    using d2 by (intro save_inv[OF _ _ _ i2]) (simp_all add: set_attrs_keys)
  then show ?thesis using saved(3) by simp
qed

text \<open>
  C4. The invariant is \<open>owner_inv\<close>: a tag or ingredient paired with a recipe has the
  recipe's owner. In a database with unique primary keys and sound through-table
  references (what the database itself enforces), it is preserved, together with those
  two, by every recipe create request and every recipe update request, whatever the
  request's outcome: the new recipe gets the requester as owner (\<open>perform_create\<close>), an
  updated recipe is the requester's (\<open>get_queryset\<close>), and both loops look up and create
  rows under the requester only.
\<close>

theorem associated_rows_keep_the_recipes_owner:
  assumes "pk_ok d" and "fk_ok d" and "owner_inv d"
  shows "owner_inv (snd (recipe_create req created d))
       \<and> pk_ok (snd (recipe_create req created d)) \<and> fk_ok (snd (recipe_create req created d))
       \<and> owner_inv (snd (recipe_update req pk updated d))
       \<and> pk_ok (snd (recipe_update req pk updated d))
       \<and> fk_ok (snd (recipe_update req pk updated d))"
proof -
  have c: "pk_ok (snd (recipe_create req created d)) \<and> fk_ok (snd (recipe_create req created d))
       \<and> owner_inv (snd (recipe_create req created d))"
  proof (cases "authenticate req")
    case (Inl e)
    then show ?thesis using assms by (simp add: recipe_create_def)
  next
    case (Inr u)
    show ?thesis
    proof (cases created)
      case None
      then show ?thesis using assms Inr by (simp add: recipe_create_def)
    next
      case (Some vd)
      have "snd (recipe_create req created d) = snd (create u (vd\<lparr>c_user := u\<rparr>) d)"
        using Inr Some by (simp add: recipe_create_def perform_create_def split: prod.splits sum.splits)
      then show ?thesis using create_inv[OF assms, of "vd\<lparr>c_user := u\<rparr>" u] by simp
    qed
  qed
  have u: "pk_ok (snd (recipe_update req pk updated d))
       \<and> fk_ok (snd (recipe_update req pk updated d))
       \<and> owner_inv (snd (recipe_update req pk updated d))"
  proof (cases "authenticate req")
    case (Inl e)
    then show ?thesis using assms by (simp add: recipe_update_def)
  next
    case (Inr u)
    show ?thesis
    proof (cases "get_object req u pk d")
      case (Inl e)
      then show ?thesis using assms Inr by (simp add: recipe_update_def)
    next
      case inst: (Inr inst)
      show ?thesis
      proof (cases updated)
        case None
        then show ?thesis using assms Inr inst by (simp add: recipe_update_def)
      next
        case (Some vu)
        have "snd (recipe_update req pk updated d) = snd (update u inst vu d)"
          using Inr inst Some by (simp add: recipe_update_def split: prod.splits sum.splits)
        moreover have "inst \<in> set (recipes d)" "recipe_user inst = u"
          using get_object_member[OF inst] by simp_all
        ultimately show ?thesis using update_inv[OF assms, of inst u vu] by simp
      qed
    qed
  qed
  show ?thesis using c u by simp
qed

lemma inv_sample: "fk_ok sample_db" "owner_inv sample_db"
  by (simp_all add: fk_ok_def owner_inv_def same_owner_def sample_db_def curry_def tahini_def
      fish_def vegan_def dinner_def vegan2_def salt_def)

lemma recipe_create_porridge:
  "snd (recipe_create req_user1 (Some porridge) sample_db) = sample_db_porridge"
proof -
  have "porridge\<lparr>c_user := 1\<rparr> = porridge" by (simp add: porridge_def)
  then show ?thesis
    using create_porridge
    by (simp add: recipe_create_def authenticate_def req_user1_def perform_create_def)
qed

lemma get_object_curry: "get_object req_user1 1 1 sample_db = Inr curry"
  by (simp add: req_user1_def get_object_def get_queryset_def sample_db_def curry_def
      tahini_def fish_def)

lemma recipe_update_retag:
  "snd (recipe_update req_user1 1 (Some retag) sample_db) = sample_db_retagged"
  using update_retag get_object_curry
  by (simp add: recipe_update_def authenticate_def req_user1_def)

theorem associated_rows_keep_the_recipes_owner_witness:
  "pk_ok sample_db \<and> fk_ok sample_db \<and> owner_inv sample_db
   \<and> snd (recipe_create req_user1 (Some porridge) sample_db) = sample_db_porridge
   \<and> owner_inv sample_db_porridge
   \<and> snd (recipe_update req_user1 1 (Some retag) sample_db) = sample_db_retagged
   \<and> owner_inv sample_db_retagged"
  using associated_rows_keep_the_recipes_owner[OF pk_ok_sample inv_sample,
      of req_user1 "Some porridge" 1 "Some retag"]
    pk_ok_sample inv_sample recipe_create_porridge recipe_update_retag
  by simp

section \<open>Registering a user\<close>








end
